theory Spec2Isabelle
  imports Main "HOL-Library.Multiset" "HOL-Library.Sublist"
begin

section \<open>PromptLab: entity model (app/models.py)\<close>

text \<open>
  A shallow embedding of the PromptLab backend: the pydantic models of
  \<^verbatim>\<open>app/models.py\<close>, the in-memory \<^verbatim>\<open>Storage\<close> class of \<^verbatim>\<open>app/storage.py\<close>, the list
  helpers of \<^verbatim>\<open>app/utils.py\<close> and the route handlers of \<^verbatim>\<open>app/api.py\<close>.

  Conventions of the embedding:
  \<^item> a Python \<^verbatim>\<open>str\<close> is a \<open>string\<close>; \<^verbatim>\<open>Optional[str]\<close> is a \<open>string option\<close>;
  \<^item> a \<^verbatim>\<open>datetime\<close> is an \<open>int\<close> (a point on the time line); the readings of
    \<^verbatim>\<open>get_current_time()\<close> and the identifiers drawn by \<^verbatim>\<open>generate_id()\<close> are inputs of
    the handler that consumes them, in the order in which the handler draws them;
  \<^item> a Python \<^verbatim>\<open>dict\<close> is an association list in insertion order;
  \<^item> the truth value of an \<^verbatim>\<open>Optional[str]\<close> (\<^verbatim>\<open>if x:\<close>) is written out: \<^verbatim>\<open>None\<close> and
    \<^verbatim>\<open>""\<close> are falsy, every other string is truthy; a pydantic model is always truthy,
    so \<^verbatim>\<open>not existing\<close> and \<^verbatim>\<open>not collection\<close> test for \<^verbatim>\<open>None\<close>;
  \<^item> a handler takes the storage and returns its outcome together with the storage it
    leaves behind, \<open>Inl\<close> carrying the \<^verbatim>\<open>HTTPException\<close> it raised: a handler that
    mutates and then raises returns the mutated storage;
  \<^item> the length constraints that pydantic checks on the request models before a
    handler runs are not part of the handlers and are not modelled: every theorem
    holds for arbitrary field values.
\<close>

type_synonym datetime = int

record prompt =
  p_id :: string
  title :: string
  content :: string
  description :: "string option"
  collection_id :: "string option"
  created_at :: datetime
  updated_at :: datetime

text \<open>\<^verbatim>\<open>PromptBase\<close>, the common shape of \<^verbatim>\<open>PromptCreate\<close> and \<^verbatim>\<open>PromptUpdate\<close>.\<close>

record prompt_base =
  b_title :: string
  b_content :: string
  b_description :: "string option"
  b_collection_id :: "string option"

text \<open>
  A field of \<^verbatim>\<open>PromptPatch\<close>: left out of the request, or supplied (with \<^verbatim>\<open>null\<close> or
  with a string). \<^verbatim>\<open>dict(exclude_unset=True)\<close> lists the supplied fields only.
\<close>

datatype patch_field = Omitted | Supplied "string option"

record prompt_patch =
  pp_title :: patch_field
  pp_content :: patch_field
  pp_description :: patch_field
  pp_collection_id :: patch_field

record collection =
  c_id :: string
  name :: string
  c_description :: "string option"
  c_created_at :: datetime

record collection_create =
  cc_name :: string
  cc_description :: "string option"

section \<open>Dictionaries\<close>

type_synonym ('k, 'v) dict = "('k \<times> 'v) list"

text \<open>\<^verbatim>\<open>d.get(k)\<close>\<close>

definition dict_get :: "('k, 'v) dict \<Rightarrow> 'k \<Rightarrow> 'v option" where
  "dict_get d k = map_of d k"

text \<open>\<^verbatim>\<open>k in d\<close>\<close>

definition dict_mem :: "'k \<Rightarrow> ('k, 'v) dict \<Rightarrow> bool" where
  "dict_mem k d = (dict_get d k \<noteq> None)"

text \<open>\<^verbatim>\<open>d[k] = v\<close>: an existing key keeps its position, a new key goes to the end.\<close>

primrec dict_set :: "'k \<Rightarrow> 'v \<Rightarrow> ('k, 'v) dict \<Rightarrow> ('k, 'v) dict" where
  "dict_set k v [] = [(k, v)]"
| "dict_set k v (e # d) = (if fst e = k then (k, v) # d else e # dict_set k v d)"

text \<open>\<^verbatim>\<open>del d[k]\<close>, for a key that is present.\<close>

definition dict_del :: "'k \<Rightarrow> ('k, 'v) dict \<Rightarrow> ('k, 'v) dict" where
  "dict_del k d = filter (\<lambda>e. fst e \<noteq> k) d"

text \<open>\<^verbatim>\<open>d.values()\<close>\<close>

definition dict_values :: "('k, 'v) dict \<Rightarrow> 'v list" where
  "dict_values d = map snd d"

section \<open>Storage (app/storage.py)\<close>

record storage =
  prompts :: "(string, prompt) dict"
  collections :: "(string, collection) dict"

definition init_storage :: storage where
  "init_storage = \<lparr>prompts = [], collections = []\<rparr>"

definition st_create_prompt :: "prompt \<Rightarrow> storage \<Rightarrow> prompt \<times> storage" where
  "st_create_prompt p s = (p, s\<lparr>prompts := dict_set (p_id p) p (prompts s)\<rparr>)"

definition st_get_prompt :: "storage \<Rightarrow> string \<Rightarrow> prompt option" where
  "st_get_prompt s pid = dict_get (prompts s) pid"

definition st_get_all_prompts :: "storage \<Rightarrow> prompt list" where
  "st_get_all_prompts s = dict_values (prompts s)"

definition st_update_prompt :: "string \<Rightarrow> prompt \<Rightarrow> storage \<Rightarrow> prompt option \<times> storage" where
  "st_update_prompt pid p s =
     (if \<not> dict_mem pid (prompts s) then (None, s)
      else (Some p, s\<lparr>prompts := dict_set pid p (prompts s)\<rparr>))"

definition st_delete_prompt :: "string \<Rightarrow> storage \<Rightarrow> bool \<times> storage" where
  "st_delete_prompt pid s =
     (if dict_mem pid (prompts s) then (True, s\<lparr>prompts := dict_del pid (prompts s)\<rparr>)
      else (False, s))"

definition st_create_collection :: "collection \<Rightarrow> storage \<Rightarrow> collection \<times> storage" where
  "st_create_collection c s = (c, s\<lparr>collections := dict_set (c_id c) c (collections s)\<rparr>)"

definition st_get_collection :: "storage \<Rightarrow> string \<Rightarrow> collection option" where
  "st_get_collection s cid = dict_get (collections s) cid"

definition st_get_all_collections :: "storage \<Rightarrow> collection list" where
  "st_get_all_collections s = dict_values (collections s)"

definition st_delete_collection :: "string \<Rightarrow> storage \<Rightarrow> bool \<times> storage" where
  "st_delete_collection cid s =
     (if dict_mem cid (collections s)
      then (True, s\<lparr>collections := dict_del cid (collections s)\<rparr>)
      else (False, s))"

definition st_get_prompts_by_collection :: "storage \<Rightarrow> string \<Rightarrow> prompt list" where
  "st_get_prompts_by_collection s cid =
     filter (\<lambda>p. collection_id p = Some cid) (dict_values (prompts s))"

definition st_clear :: "storage \<Rightarrow> storage" where
  "st_clear s = s\<lparr>prompts := [], collections := []\<rparr>"

section \<open>List helpers (app/utils.py)\<close>

text \<open>
  \<^verbatim>\<open>sorted(xs, key=f, reverse=r)\<close>: Python's sort is stable, and with \<^verbatim>\<open>reverse=True\<close>
  it reverses the list, sorts it stably in ascending order, and reverses the result.
\<close>

definition py_sorted :: "('a \<Rightarrow> 'k::linorder) \<Rightarrow> bool \<Rightarrow> 'a list \<Rightarrow> 'a list" where
  "py_sorted f r xs = (if r then rev (sort_key f (rev xs)) else sort_key f xs)"

definition sort_prompts_by_date :: "prompt list \<Rightarrow> bool \<Rightarrow> prompt list" where
  "sort_prompts_by_date ps descending = py_sorted created_at descending ps"

definition filter_prompts_by_collection :: "prompt list \<Rightarrow> string \<Rightarrow> prompt list" where
  "filter_prompts_by_collection ps cid = filter (\<lambda>p. collection_id p = Some cid) ps"

text \<open>\<^verbatim>\<open>q in s\<close> on strings: \<open>q\<close> occurs in \<open>s\<close> as a contiguous run.\<close>

fun starts_with :: "'a list \<Rightarrow> 'a list \<Rightarrow> bool" where
  "starts_with s [] = True"
| "starts_with [] (c # q) = False"
| "starts_with (d # s) (c # q) = (d = c \<and> starts_with s q)"

fun str_in :: "'a list \<Rightarrow> 'a list \<Rightarrow> bool" where
  "str_in q [] = (q = [])"
| "str_in q (d # s) = (starts_with (d # s) q \<or> str_in q s)"

text \<open>
  \<^verbatim>\<open>str.lower()\<close> is a builtin of Python driven by the Unicode tables; the search takes
  it as the parameter \<open>lower\<close>. \<open>ascii_lower\<close> is its restriction to ASCII text.
\<close>

definition ascii_lower_char :: "char \<Rightarrow> char" where
  "ascii_lower_char c =
     (case map_of (zip ''ABCDEFGHIJKLMNOPQRSTUVWXYZ'' ''abcdefghijklmnopqrstuvwxyz'') c of
        None \<Rightarrow> c
      | Some l \<Rightarrow> l)"

definition ascii_lower :: "string \<Rightarrow> string" where
  "ascii_lower s = map ascii_lower_char s"

definition search_prompts :: "(string \<Rightarrow> string) \<Rightarrow> prompt list \<Rightarrow> string \<Rightarrow> prompt list" where
  "search_prompts lower ps query =
     (let query_lower = lower query in
      filter (\<lambda>p. str_in query_lower (lower (title p)) \<or>
                  (case description p of None \<Rightarrow> False
                   | Some d \<Rightarrow> d \<noteq> [] \<and> str_in query_lower (lower d))) ps)"

section \<open>Route handlers (app/api.py)\<close>

text \<open>\<^verbatim>\<open>HTTPException(status_code, detail)\<close>\<close>

datatype http_error = HTTPException nat string

text \<open>
  The error kinds of the specification: \<open>NotFound\<close> is status 404,
  \<open>InvalidReference\<close> is status 400.
\<close>

fun status_code :: "http_error \<Rightarrow> nat" where
  "status_code (HTTPException c d) = c"

definition NotFound :: "http_error \<Rightarrow> bool" where
  "NotFound e = (status_code e = 404)"

definition InvalidReference :: "http_error \<Rightarrow> bool" where
  "InvalidReference e = (status_code e = 400)"

text \<open>\<^verbatim>\<open>list_prompts\<close>: the list and its length (\<^verbatim>\<open>PromptList\<close>).\<close>

definition list_prompts ::
  "(string \<Rightarrow> string) \<Rightarrow> string option \<Rightarrow> string option \<Rightarrow> storage
     \<Rightarrow> (http_error + prompt list \<times> nat) \<times> storage" where
  "list_prompts lower cid search s =
     (let ps = st_get_all_prompts s;
          ps = (case cid of None \<Rightarrow> ps
                | Some c \<Rightarrow> if c \<noteq> [] then filter_prompts_by_collection ps c else ps);
          ps = (case search of None \<Rightarrow> ps
                | Some q \<Rightarrow> if q \<noteq> [] then search_prompts lower ps q else ps);
          ps = sort_prompts_by_date ps True
      in (Inr (ps, length ps), s))"

definition get_prompt :: "string \<Rightarrow> storage \<Rightarrow> (http_error + prompt) \<times> storage" where
  "get_prompt pid s =
     (case st_get_prompt s pid of
        None \<Rightarrow> (Inl (HTTPException 404 ''Prompt not found''), s)
      | Some p \<Rightarrow> (Inr p, s))"

text \<open>
  \<^verbatim>\<open>Prompt(**prompt_data.model_dump())\<close> draws the identifier \<open>new_id\<close> and then reads
  the clock twice, for \<^verbatim>\<open>created_at\<close> (\<open>t1\<close>) and for \<^verbatim>\<open>updated_at\<close> (\<open>t2\<close>), in the
  order of the fields of the class.
\<close>

definition create_prompt ::
  "prompt_base \<Rightarrow> string \<Rightarrow> datetime \<Rightarrow> datetime \<Rightarrow> storage
     \<Rightarrow> (http_error + prompt) \<times> storage" where
  "create_prompt d new_id t1 t2 s =
     (if (case b_collection_id d of None \<Rightarrow> False
          | Some c \<Rightarrow> c \<noteq> [] \<and> st_get_collection s c = None)
      then (Inl (HTTPException 400 ''Collection not found''), s)
      else
        (let p = \<lparr>p_id = new_id, title = b_title d, content = b_content d,
                  description = b_description d, collection_id = b_collection_id d,
                  created_at = t1, updated_at = t2\<rparr>;
             (r, s') = st_create_prompt p s
         in (Inr r, s')))"

definition update_prompt ::
  "string \<Rightarrow> prompt_base \<Rightarrow> datetime \<Rightarrow> storage
     \<Rightarrow> (http_error + prompt option) \<times> storage" where
  "update_prompt pid d now s =
     (case st_get_prompt s pid of
        None \<Rightarrow> (Inl (HTTPException 404 ''Prompt not found''), s)
      | Some existing \<Rightarrow>
          if (case b_collection_id d of None \<Rightarrow> False
              | Some c \<Rightarrow> c \<noteq> [] \<and> st_get_collection s c = None)
          then (Inl (HTTPException 400 ''Collection not found''), s)
          else
            (let updated_prompt =
                   \<lparr>p_id = p_id existing, title = b_title d, content = b_content d,
                    description = b_description d, collection_id = b_collection_id d,
                    created_at = created_at existing, updated_at = now\<rparr>;
                 (r, s') = st_update_prompt pid updated_prompt s
             in (Inr r, s')))"

text \<open>
  The fields of a patch that \<^verbatim>\<open>prompt_data.dict(exclude_unset=True)\<close> lists, in the
  order of the class, each with the value \<^verbatim>\<open>getattr\<close> reads.
\<close>

datatype field_name = Title | Content | Description | CollectionId

fun supplied :: "field_name \<Rightarrow> patch_field \<Rightarrow> (field_name \<times> string option) list" where
  "supplied f Omitted = []"
| "supplied f (Supplied v) = [(f, v)]"

definition fields_set :: "prompt_patch \<Rightarrow> (field_name \<times> string option) list" where
  "fields_set d =
     supplied Title (pp_title d) @ supplied Content (pp_content d) @
     supplied Description (pp_description d) @ supplied CollectionId (pp_collection_id d)"

text \<open>\<^verbatim>\<open>update_data[field] = value\<close> on the copy \<^verbatim>\<open>existing.dict()\<close>.\<close>

fun set_field :: "field_name \<Rightarrow> string \<Rightarrow> prompt \<Rightarrow> prompt" where
  "set_field Title v u = u\<lparr>title := v\<rparr>"
| "set_field Content v u = u\<lparr>content := v\<rparr>"
| "set_field Description v u = u\<lparr>description := Some v\<rparr>"
| "set_field CollectionId v u = u\<lparr>collection_id := Some v\<rparr>"

text \<open>
  The loop of \<^verbatim>\<open>patch_prompt\<close> over the supplied fields. It works on the local copy
  \<open>u\<close> of the existing prompt and reads the storage only; raising leaves the loop.
\<close>

fun patch_loop ::
  "storage \<Rightarrow> (field_name \<times> string option) list \<Rightarrow> prompt \<Rightarrow> http_error + prompt" where
  "patch_loop s [] u = Inr u"
| "patch_loop s ((f, v) # fs) u =
     (case v of
        None \<Rightarrow> patch_loop s fs u
      | Some x \<Rightarrow>
          if x \<noteq> [] \<and> f \<noteq> CollectionId then patch_loop s fs (set_field f x u)
          else if f = CollectionId \<and> x \<noteq> [] then
            (case st_get_collection s x of
               None \<Rightarrow> Inl (HTTPException 400 ''Collection not found'')
             | Some c \<Rightarrow> patch_loop s fs (set_field f x u))
          else patch_loop s fs u)"

definition patch_prompt ::
  "string \<Rightarrow> prompt_patch \<Rightarrow> datetime \<Rightarrow> storage
     \<Rightarrow> (http_error + prompt option) \<times> storage" where
  "patch_prompt pid d now s =
     (case st_get_prompt s pid of
        None \<Rightarrow> (Inl (HTTPException 404 ''Prompt not found''), s)
      | Some existing \<Rightarrow>
          (case patch_loop s (fields_set d) existing of
             Inl e \<Rightarrow> (Inl e, s)
           | Inr update_data \<Rightarrow>
               (let updated_prompt = update_data\<lparr>updated_at := now\<rparr>;
                    (r, s') = st_update_prompt pid updated_prompt s
                in (Inr r, s'))))"

definition delete_prompt :: "string \<Rightarrow> storage \<Rightarrow> (http_error + unit) \<times> storage" where
  "delete_prompt pid s =
     (let (ok, s') = st_delete_prompt pid s
      in if \<not> ok then (Inl (HTTPException 404 ''Prompt not found''), s') else (Inr (), s'))"

definition list_collections :: "storage \<Rightarrow> (http_error + collection list \<times> nat) \<times> storage" where
  "list_collections s =
     (let cs = st_get_all_collections s in (Inr (cs, length cs), s))"

definition get_collection :: "string \<Rightarrow> storage \<Rightarrow> (http_error + collection) \<times> storage" where
  "get_collection cid s =
     (case st_get_collection s cid of
        None \<Rightarrow> (Inl (HTTPException 404 ''Collection not found''), s)
      | Some c \<Rightarrow> (Inr c, s))"

text \<open>
  \<^verbatim>\<open>Collection(**collection_data.model_dump())\<close> draws the identifier and reads the
  clock once.
\<close>

definition create_collection ::
  "collection_create \<Rightarrow> string \<Rightarrow> datetime \<Rightarrow> storage
     \<Rightarrow> (http_error + collection) \<times> storage" where
  "create_collection d new_id t s =
     (let c = \<lparr>c_id = new_id, name = cc_name d, c_description = cc_description d,
               c_created_at = t\<rparr>;
          (r, s') = st_create_collection c s
      in (Inr r, s'))"

text \<open>
  The loop of \<^verbatim>\<open>delete_collection\<close> over the list that
  \<^verbatim>\<open>get_prompts_by_collection\<close> returned: one \<^verbatim>\<open>storage.delete_prompt(prompt.id)\<close> for
  each member, its result dropped.
\<close>

fun delete_members :: "prompt list \<Rightarrow> storage \<Rightarrow> storage" where
  "delete_members [] s = s"
| "delete_members (p # ps) s = delete_members ps (snd (st_delete_prompt (p_id p) s))"

definition delete_collection :: "string \<Rightarrow> storage \<Rightarrow> (http_error + unit) \<times> storage" where
  "delete_collection cid s =
     (let s1 = delete_members (st_get_prompts_by_collection s cid) s;
          (ok, s2) = st_delete_collection cid s1
      in if \<not> ok then (Inl (HTTPException 404 ''Collection not found''), s2)
         else (Inr (), s2))"

section \<open>Sequences of requests\<close>

text \<open>
  A request to the API, with the identifiers and clock readings that serving it
  consumes. \<open>exec\<close> is the effect of one request on the storage, \<open>run\<close> that of a
  sequence of requests; \<open>readings\<close> lists the clock readings of a request in the order
  in which they are taken.
\<close>

datatype request =
    ListPrompts "string option" "string option"
  | GetPrompt string
  | CreatePrompt prompt_base string datetime datetime
  | UpdatePrompt string prompt_base datetime
  | PatchPrompt string prompt_patch datetime
  | DeletePrompt string
  | ListCollections
  | GetCollection string
  | CreateCollection collection_create string datetime
  | DeleteCollection string

fun exec :: "(string \<Rightarrow> string) \<Rightarrow> request \<Rightarrow> storage \<Rightarrow> storage" where
  "exec lower (ListPrompts cid search) s = snd (list_prompts lower cid search s)"
| "exec lower (GetPrompt pid) s = snd (get_prompt pid s)"
| "exec lower (CreatePrompt d new_id t1 t2) s = snd (create_prompt d new_id t1 t2 s)"
| "exec lower (UpdatePrompt pid d now) s = snd (update_prompt pid d now s)"
| "exec lower (PatchPrompt pid d now) s = snd (patch_prompt pid d now s)"
| "exec lower (DeletePrompt pid) s = snd (delete_prompt pid s)"
| "exec lower ListCollections s = snd (list_collections s)"
| "exec lower (GetCollection cid) s = snd (get_collection cid s)"
| "exec lower (CreateCollection d new_id t) s = snd (create_collection d new_id t s)"
| "exec lower (DeleteCollection cid) s = snd (delete_collection cid s)"

fun run :: "(string \<Rightarrow> string) \<Rightarrow> request list \<Rightarrow> storage \<Rightarrow> storage" where
  "run lower [] s = s"
| "run lower (r # rs) s = run lower rs (exec lower r s)"

fun readings :: "request \<Rightarrow> datetime list" where
  "readings (CreatePrompt d new_id t1 t2) = [t1, t2]"
| "readings (UpdatePrompt pid d now) = [now]"
| "readings (PatchPrompt pid d now) = [now]"
| "readings (CreateCollection d new_id t) = [t]"
| "readings r = []"

section \<open>Invariants of the storage\<close>

text \<open>
  A dictionary is well formed for a key function when its keys are pairwise distinct
  and every value sits under its own key. The storage is well formed when the prompts
  are filed under their \<^verbatim>\<open>id\<close> and the collections under theirs.
\<close>

definition dict_ok :: "('v \<Rightarrow> 'k) \<Rightarrow> ('k, 'v) dict \<Rightarrow> bool" where
  "dict_ok key d = (distinct (map fst d) \<and> (\<forall>e \<in> set d. key (snd e) = fst e))"

definition wf_storage :: "storage \<Rightarrow> bool" where
  "wf_storage s = (dict_ok p_id (prompts s) \<and> dict_ok c_id (collections s))"

section \<open>A sample session\<close>

text \<open>
  One collection, one prompt filed in it and one prompt outside any collection, as
  three requests to the empty storage, and the storage they leave behind.
\<close>

definition ex_collection :: collection where
  "ex_collection = \<lparr>c_id = ''c1'', name = ''Greetings'', c_description = None,
                     c_created_at = 1\<rparr>"

definition ex_prompt1 :: prompt where
  "ex_prompt1 = \<lparr>p_id = ''p1'', title = ''Hello World'', content = ''Say hello'',
                  description = Some ''a greeting'', collection_id = Some ''c1'',
                  created_at = 2, updated_at = 3\<rparr>"

definition ex_prompt2 :: prompt where
  "ex_prompt2 = \<lparr>p_id = ''p2'', title = ''Bye'', content = ''Say goodbye'',
                  description = None, collection_id = None,
                  created_at = 4, updated_at = 5\<rparr>"

definition ex_requests :: "request list" where
  "ex_requests =
     [CreateCollection \<lparr>cc_name = ''Greetings'', cc_description = None\<rparr> ''c1'' 1,
      CreatePrompt \<lparr>b_title = ''Hello World'', b_content = ''Say hello'',
                    b_description = Some ''a greeting'', b_collection_id = Some ''c1''\<rparr>
        ''p1'' 2 3,
      CreatePrompt \<lparr>b_title = ''Bye'', b_content = ''Say goodbye'',
                    b_description = None, b_collection_id = None\<rparr>
        ''p2'' 4 5]"

definition ex_storage :: storage where
  "ex_storage = \<lparr>prompts = [(''p1'', ex_prompt1), (''p2'', ex_prompt2)],
                  collections = [(''c1'', ex_collection)]\<rparr>"

text \<open>A full update and a patch that name a collection nobody created.\<close>

definition ex_update_ghost :: prompt_base where
  "ex_update_ghost = \<lparr>b_title = ''Hi'', b_content = ''Say hi'', b_description = None,
                       b_collection_id = Some ''ghost''\<rparr>"

definition ex_patch_ghost :: prompt_patch where
  "ex_patch_ghost = \<lparr>pp_title = Omitted, pp_content = Omitted,
                      pp_description = Supplied (Some []),
                      pp_collection_id = Supplied (Some ''ghost'')\<rparr>"

text \<open>A full update that files the second prompt in the collection.\<close>

definition ex_update_c1 :: prompt_base where
  "ex_update_c1 = \<lparr>b_title = ''Farewell'', b_content = ''Say farewell'',
                    b_description = None, b_collection_id = Some ''c1''\<rparr>"

definition ex_prompt2_updated :: prompt where
  "ex_prompt2_updated = \<lparr>p_id = ''p2'', title = ''Farewell'', content = ''Say farewell'',
                          description = None, collection_id = Some ''c1'',
                          created_at = 4, updated_at = 9\<rparr>"

text \<open>
  A patch whose fields are all empty strings, and a full update that supplies no
  collection.
\<close>

definition ex_patch_empty :: prompt_patch where
  "ex_patch_empty = \<lparr>pp_title = Supplied (Some []), pp_content = Omitted,
                      pp_description = Supplied (Some []),
                      pp_collection_id = Supplied (Some [])\<rparr>"

definition ex_update_detach :: prompt_base where
  "ex_update_detach = \<lparr>b_title = ''Hello World'', b_content = ''Say hello'',
                        b_description = Some ''a greeting'', b_collection_id = None\<rparr>"

text \<open>
  A prompt created with the empty string as its \<^verbatim>\<open>collection_id\<close>: the handler skips the
  reference check for a falsy value and stores the prompt as it is.
\<close>

definition ex_prompt3 :: prompt where
  "ex_prompt3 = \<lparr>p_id = ''p3'', title = ''Loose'', content = ''No collection'',
                  description = None, collection_id = Some [],
                  created_at = 6, updated_at = 7\<rparr>"

definition ex_loose_requests :: "request list" where
  "ex_loose_requests =
     [CreatePrompt \<lparr>b_title = ''Loose'', b_content = ''No collection'',
                    b_description = None, b_collection_id = Some []\<rparr> ''p3'' 6 7]"

definition ex_loose_storage :: storage where
  "ex_loose_storage = \<lparr>prompts = [(''p3'', ex_prompt3)], collections = []\<rparr>"

section \<open>Timestamps\<close>

text \<open>
  The timestamps of the stored prompts are in order and not later than the clock
  reading \<open>t\<close>.
\<close>

definition time_inv :: "datetime \<Rightarrow> storage \<Rightarrow> bool" where
  "time_inv t s =
     (\<forall>e \<in> set (prompts s). created_at (snd e) \<le> updated_at (snd e) \<and> updated_at (snd e) \<le> t)"

fun is_update_or_patch :: "request \<Rightarrow> bool" where
  "is_update_or_patch (UpdatePrompt pid d now) = True"
| "is_update_or_patch (PatchPrompt pid d now) = True"
| "is_update_or_patch r = False"

text \<open>A full update and then a patch of the second prompt, at the times 9 and 10.\<close>

definition ex_updates :: "request list" where
  "ex_updates = [UpdatePrompt ''p2'' ex_update_c1 9, PatchPrompt ''p2'' ex_patch_empty 10]"

section \<open>References to collections\<close>

text \<open>
  Every stored prompt whose \<^verbatim>\<open>collection_id\<close> is a non-empty string names a stored
  collection.
\<close>

definition ref_ok :: "storage \<Rightarrow> prompt \<Rightarrow> bool" where
  "ref_ok s p = (\<forall>c. collection_id p = Some c \<and> c \<noteq> [] \<longrightarrow> st_get_collection s c \<noteq> None)"

definition ref_inv :: "storage \<Rightarrow> bool" where
  "ref_inv s = (\<forall>e \<in> set (prompts s). ref_ok s (snd e))"

text \<open>A prompt created while the clock steps back from 5 to 3.\<close>

definition ex_prompt4 :: prompt where
  "ex_prompt4 = \<lparr>p_id = ''p4'', title = ''Late'', content = ''Clock steps back'',
                  description = None, collection_id = None,
                  created_at = 5, updated_at = 3\<rparr>"

definition ex_clock_back_requests :: "request list" where
  "ex_clock_back_requests =
     [CreatePrompt \<lparr>b_title = ''Late'', b_content = ''Clock steps back'',
                    b_description = None, b_collection_id = None\<rparr> ''p4'' 5 3]"

section \<open>Dictionary lemmas\<close>

lemma dict_get_set: "dict_get (dict_set k v d) k' = (if k' = k then Some v else dict_get d k')"
  by (induction d) (auto simp: dict_get_def)

lemma dict_get_del: "dict_get (dict_del k d) k' = (if k' = k then None else dict_get d k')"
  by (induction d) (auto simp: dict_get_def dict_del_def)

lemma keys_dict_set: "fst ` set (dict_set k v d) = insert k (fst ` set d)"
  by (induction d) auto

lemma set_dict_set: "set (dict_set k v d) \<subseteq> insert (k, v) (set d)"
  by (induction d) auto

lemma distinct_dict_set: "distinct (map fst d) \<Longrightarrow> distinct (map fst (dict_set k v d))"
  by (induction d) (auto simp: keys_dict_set)

lemma distinct_dict_del: "distinct (map fst d) \<Longrightarrow> distinct (map fst (dict_del k d))"
  by (simp add: dict_del_def distinct_map_filter)

lemma set_dict_del: "set (dict_del k d) \<subseteq> set d"
  by (auto simp: dict_del_def)

lemma dict_get_SomeD: "dict_get d k = Some v \<Longrightarrow> (k, v) \<in> set d"
  by (simp add: dict_get_def map_of_SomeD)

lemma dict_del_absent: "\<not> dict_mem k d \<Longrightarrow> dict_del k d = d"
  by (induction d) (auto simp: dict_del_def dict_mem_def dict_get_def split: if_splits)

lemma dict_ok_set: "dict_ok key d \<Longrightarrow> key v = k \<Longrightarrow> dict_ok key (dict_set k v d)"
  unfolding dict_ok_def using set_dict_set[of k v d] by (auto simp: distinct_dict_set)

lemma dict_ok_del: "dict_ok key d \<Longrightarrow> dict_ok key (dict_del k d)"
  unfolding dict_ok_def using set_dict_del[of k d] by (auto simp: distinct_dict_del)

lemma dict_ok_filter: "dict_ok key d \<Longrightarrow> dict_ok key (filter P d)"
  unfolding dict_ok_def by (auto simp: distinct_map_filter)

lemma dict_ok_get: "dict_ok key d \<Longrightarrow> dict_get d k = Some v \<Longrightarrow> key v = k"
  unfolding dict_ok_def using dict_get_SomeD[of d k v] by fastforce

section \<open>The sample session, evaluated\<close>

lemma ex_storage_run: "run lower ex_requests init_storage = ex_storage"
  by (simp add: ex_requests_def init_storage_def ex_storage_def ex_prompt1_def ex_prompt2_def
      ex_collection_def create_collection_def create_prompt_def st_create_collection_def
      st_create_prompt_def st_get_collection_def dict_get_def Let_def)

lemma ex_get_prompt1: "st_get_prompt ex_storage ''p1'' = Some ex_prompt1"
  by (simp add: st_get_prompt_def dict_get_def ex_storage_def)

lemma ex_get_prompt2: "st_get_prompt ex_storage ''p2'' = Some ex_prompt2"
  by (simp add: st_get_prompt_def dict_get_def ex_storage_def)

lemma ex_get_ghost: "st_get_collection ex_storage ''ghost'' = None"
  by (simp add: st_get_collection_def dict_get_def ex_storage_def)

lemma ex_get_collection: "st_get_collection ex_storage ''c1'' = Some ex_collection"
  by (simp add: st_get_collection_def dict_get_def ex_storage_def)

section \<open>Full update and patch\<close>

lemma st_update_prompt_found:
  "st_get_prompt s pid = Some e \<Longrightarrow>
   st_update_prompt pid p s = (Some p, s\<lparr>prompts := dict_set pid p (prompts s)\<rparr>)"
  by (simp add: st_update_prompt_def st_get_prompt_def dict_mem_def)

lemma st_get_prompt_set:
  "st_get_prompt (s\<lparr>prompts := dict_set pid p (prompts s)\<rparr>) k =
     (if k = pid then Some p else st_get_prompt s k)"
  by (simp add: st_get_prompt_def dict_get_set)

lemma patch_loop_bad_reference:
  "c \<noteq> [] \<Longrightarrow> st_get_collection s c = None \<Longrightarrow> pp_collection_id pd = Supplied (Some c) \<Longrightarrow>
   patch_loop s (fields_set pd) u = Inl (HTTPException 400 ''Collection not found'')"
  by (cases "pp_title pd"; cases "pp_content pd"; cases "pp_description pd")
     (auto simp: fields_set_def split: option.splits)

text \<open>
  C1. A full update or a patch of a stored prompt whose \<^verbatim>\<open>collection_id\<close> is a non-empty
  string that names no stored collection raises the 400 error (\<open>InvalidReference\<close>) and
  returns the storage it was given: the stored prompt, \<^verbatim>\<open>updated_at\<close> included, and
  everything else in the storage are as before the call.
\<close>

theorem bad_reference_rejected:
  assumes "st_get_prompt s pid = Some e"
    and "c \<noteq> []" and "st_get_collection s c = None"
  shows "(b_collection_id d = Some c \<longrightarrow>
            update_prompt pid d now s = (Inl (HTTPException 400 ''Collection not found''), s)
          \<and> st_get_prompt (snd (update_prompt pid d now s)) pid = Some e)
       \<and> (pp_collection_id pd = Supplied (Some c) \<longrightarrow>
            patch_prompt pid pd now s = (Inl (HTTPException 400 ''Collection not found''), s)
          \<and> st_get_prompt (snd (patch_prompt pid pd now s)) pid = Some e)
       \<and> InvalidReference (HTTPException 400 ''Collection not found'')"
  using assms patch_loop_bad_reference[of c s pd e]
  by (simp add: update_prompt_def patch_prompt_def InvalidReference_def)

theorem bad_reference_rejected_witness:
  "st_get_prompt ex_storage ''p1'' = Some ex_prompt1
   \<and> st_get_collection ex_storage ''ghost'' = None
   \<and> b_collection_id ex_update_ghost = Some ''ghost''
   \<and> pp_collection_id ex_patch_ghost = Supplied (Some ''ghost'')
   \<and> update_prompt ''p1'' ex_update_ghost 9 ex_storage
       = (Inl (HTTPException 400 ''Collection not found''), ex_storage)
   \<and> patch_prompt ''p1'' ex_patch_ghost 9 ex_storage
       = (Inl (HTTPException 400 ''Collection not found''), ex_storage)"
  using bad_reference_rejected[of ex_storage "''p1''" ex_prompt1 "''ghost''"
      ex_update_ghost 9 ex_patch_ghost]
  by (simp add: ex_get_prompt1 ex_get_ghost ex_update_ghost_def ex_patch_ghost_def)

text \<open>
  C6. A full update of a stored prompt that passes the reference check (no
  \<^verbatim>\<open>collection_id\<close>, an empty one, or one that names a stored collection) returns and
  stores, under the requested key, the prompt made of the supplied \<^verbatim>\<open>title\<close>,
  \<^verbatim>\<open>content\<close>, \<^verbatim>\<open>description\<close> and \<^verbatim>\<open>collection_id\<close> as they are (an absent description
  or collection clears the field), the \<^verbatim>\<open>id\<close> and \<^verbatim>\<open>created_at\<close> of the existing record, and
  the current time as \<^verbatim>\<open>updated_at\<close>. Nothing else in the storage changes.
\<close>

theorem full_update_result:
  assumes "st_get_prompt s pid = Some e"
    and "\<forall>c. b_collection_id d = Some c \<and> c \<noteq> [] \<longrightarrow> st_get_collection s c \<noteq> None"
  shows "let p' = \<lparr>p_id = p_id e, title = b_title d, content = b_content d,
                   description = b_description d, collection_id = b_collection_id d,
                   created_at = created_at e, updated_at = now\<rparr>;
             s' = snd (update_prompt pid d now s)
         in fst (update_prompt pid d now s) = Inr (Some p')
          \<and> st_get_prompt s' pid = Some p'
          \<and> (\<forall>k. k \<noteq> pid \<longrightarrow> st_get_prompt s' k = st_get_prompt s k)
          \<and> collections s' = collections s"
proof -
  have ok: "\<not> (case b_collection_id d of None \<Rightarrow> False
               | Some c \<Rightarrow> c \<noteq> [] \<and> st_get_collection s c = None)"
    using assms(2) by (auto split: option.splits)
  show ?thesis
    using assms(1) ok
    by (simp add: update_prompt_def st_update_prompt_found st_get_prompt_set Let_def)
qed

theorem full_update_result_witness:
  "st_get_prompt ex_storage ''p2'' = Some ex_prompt2
   \<and> st_get_collection ex_storage ''c1'' \<noteq> None
   \<and> fst (update_prompt ''p2'' ex_update_c1 9 ex_storage) = Inr (Some ex_prompt2_updated)
   \<and> st_get_prompt (snd (update_prompt ''p2'' ex_update_c1 9 ex_storage)) ''p2''
       = Some ex_prompt2_updated
   \<and> st_get_prompt (snd (update_prompt ''p2'' ex_update_c1 9 ex_storage)) ''p1''
       = Some ex_prompt1"
  using full_update_result[of ex_storage "''p2''" ex_prompt2 ex_update_c1 9]
  by (simp add: ex_get_prompt1 ex_get_prompt2 ex_get_collection ex_update_c1_def
      ex_prompt2_updated_def ex_prompt2_def Let_def)

text \<open>What the loop of the patch does to the copy when no reference is bad.\<close>

lemma patch_loop_ok:
  assumes "\<forall>c. pp_collection_id pd = Supplied (Some c) \<and> c \<noteq> [] \<longrightarrow> st_get_collection s c \<noteq> None"
  shows "\<exists>u'. patch_loop s (fields_set pd) u = Inr u'
     \<and> p_id u' = p_id u \<and> created_at u' = created_at u \<and> updated_at u' = updated_at u
     \<and> (pp_title pd \<in> {Omitted, Supplied None, Supplied (Some [])} \<longrightarrow> title u' = title u)
     \<and> (pp_content pd \<in> {Omitted, Supplied None, Supplied (Some [])} \<longrightarrow> content u' = content u)
     \<and> (pp_description pd \<in> {Omitted, Supplied None, Supplied (Some [])}
          \<longrightarrow> description u' = description u)
     \<and> (pp_collection_id pd \<in> {Omitted, Supplied None, Supplied (Some [])}
          \<longrightarrow> collection_id u' = collection_id u)
     \<and> (\<forall>x. pp_collection_id pd = Supplied (Some x) \<and> x \<noteq> [] \<longrightarrow> collection_id u' = Some x)"
  using assms
  by (cases "pp_title pd"; cases "pp_content pd"; cases "pp_description pd";
      cases "pp_collection_id pd")
     (auto simp: fields_set_def split: option.splits)

lemma patch_prompt_ok:
  assumes "st_get_prompt s pid = Some e" and "patch_loop s (fields_set pd) e = Inr u"
  shows "fst (patch_prompt pid pd now s) = Inr (Some (u\<lparr>updated_at := now\<rparr>))"
    and "st_get_prompt (snd (patch_prompt pid pd now s)) pid = Some (u\<lparr>updated_at := now\<rparr>)"
  using assms
  by (simp_all add: patch_prompt_def st_update_prompt_found st_get_prompt_set Let_def)

lemma patch_prompt_bad:
  assumes "st_get_prompt s pid = Some e"
    and "pp_collection_id pd = Supplied (Some c)" and "c \<noteq> []"
    and "st_get_collection s c = None"
  shows "patch_prompt pid pd now s = (Inl (HTTPException 400 ''Collection not found''), s)"
  using assms patch_loop_bad_reference[of c s pd e] by (simp add: patch_prompt_def)

text \<open>
  C3, as the code has it. After a patch of a stored prompt, whatever its outcome, a
  field other than \<^verbatim>\<open>collection_id\<close> that was supplied as the empty string has its old
  value in the stored prompt, and so has every field the patch does not mention. When
  the patch passes the reference check (its \<^verbatim>\<open>collection_id\<close> is left out, null, empty or
  names a stored collection) it succeeds and \<^verbatim>\<open>updated_at\<close> is the current time, also when
  no field value changes. A patch that fails the reference check does not refresh
  \<^verbatim>\<open>updated_at\<close>.
\<close>

theorem patch_empty_string_no_change:
  assumes "st_get_prompt s pid = Some e"
  shows "\<exists>p'. st_get_prompt (snd (patch_prompt pid pd now s)) pid = Some p'
     \<and> p_id p' = p_id e \<and> created_at p' = created_at e
     \<and> (pp_title pd \<in> {Omitted, Supplied (Some [])} \<longrightarrow> title p' = title e)
     \<and> (pp_content pd \<in> {Omitted, Supplied (Some [])} \<longrightarrow> content p' = content e)
     \<and> (pp_description pd \<in> {Omitted, Supplied (Some [])} \<longrightarrow> description p' = description e)
     \<and> (pp_collection_id pd = Omitted \<longrightarrow> collection_id p' = collection_id e)
     \<and> ((\<forall>c. pp_collection_id pd = Supplied (Some c) \<and> c \<noteq> []
              \<longrightarrow> st_get_collection s c \<noteq> None)
          \<longrightarrow> fst (patch_prompt pid pd now s) = Inr (Some p') \<and> updated_at p' = now)"
proof (cases "\<forall>c. pp_collection_id pd = Supplied (Some c) \<and> c \<noteq> []
                \<longrightarrow> st_get_collection s c \<noteq> None")
  case True
  from patch_loop_ok[OF True, of e] obtain u where u: "patch_loop s (fields_set pd) e = Inr u"
    and "p_id u = p_id e" "created_at u = created_at e"
    and "pp_title pd \<in> {Omitted, Supplied None, Supplied (Some [])} \<longrightarrow> title u = title e"
    and "pp_content pd \<in> {Omitted, Supplied None, Supplied (Some [])} \<longrightarrow> content u = content e"
    and "pp_description pd \<in> {Omitted, Supplied None, Supplied (Some [])}
          \<longrightarrow> description u = description e"
    and "pp_collection_id pd \<in> {Omitted, Supplied None, Supplied (Some [])}
          \<longrightarrow> collection_id u = collection_id e"
    by blast
  then show ?thesis
    using patch_prompt_ok[OF assms u, of now] by simp
next
  case False
  then obtain c where "pp_collection_id pd = Supplied (Some c)" "c \<noteq> []"
    "st_get_collection s c = None" by blast
  from patch_prompt_bad[OF assms this] False assms show ?thesis by simp
qed

theorem patch_empty_string_no_change_witness:
  "st_get_prompt ex_storage ''p1'' = Some ex_prompt1
   \<and> pp_description ex_patch_empty \<in> {Omitted, Supplied (Some [])}
   \<and> pp_title ex_patch_empty \<in> {Omitted, Supplied (Some [])}
   \<and> (\<exists>p'. st_get_prompt (snd (patch_prompt ''p1'' ex_patch_empty 9 ex_storage)) ''p1'' = Some p'
        \<and> fst (patch_prompt ''p1'' ex_patch_empty 9 ex_storage) = Inr (Some p')
        \<and> description p' = Some ''a greeting'' \<and> title p' = ''Hello World''
        \<and> updated_at p' = 9)"
  using patch_empty_string_no_change[of ex_storage "''p1''" ex_prompt1 ex_patch_empty 9]
  by (auto simp: ex_get_prompt1 ex_patch_empty_def ex_prompt1_def)

text \<open>
  The claim C3 as it is written fails for a patch that is rejected: the patch
  \<open>ex_patch_ghost\<close> supplies \<^verbatim>\<open>description=""\<close> and an unknown collection, and the stored
  prompt keeps its old \<^verbatim>\<open>updated_at\<close> (3), although the call was made at time 9.
\<close>

theorem patch_refresh_counterexample:
  "st_get_prompt ex_storage ''p1'' = Some ex_prompt1
   \<and> pp_description ex_patch_ghost = Supplied (Some [])
   \<and> st_get_prompt (snd (patch_prompt ''p1'' ex_patch_ghost 9 ex_storage)) ''p1''
       = Some ex_prompt1
   \<and> updated_at ex_prompt1 = 3 \<and> updated_at ex_prompt1 \<noteq> 9"
  using patch_prompt_bad[of ex_storage "''p1''" ex_prompt1 ex_patch_ghost "''ghost''" 9]
  by (simp add: ex_get_prompt1 ex_get_ghost ex_patch_ghost_def ex_prompt1_def)

text \<open>
  C9. A patch whose \<^verbatim>\<open>collection_id\<close> is left out, null or the empty string succeeds on
  a stored prompt and leaves the prompt's \<^verbatim>\<open>collection_id\<close> as it was. After any patch the
  stored \<^verbatim>\<open>collection_id\<close> is the previous one or a non-empty identifier of a stored
  collection that the patch supplied, so a patch never clears it; a full update that
  supplies no \<^verbatim>\<open>collection_id\<close> stores the prompt without one.
\<close>

theorem patch_cannot_clear_collection:
  assumes "st_get_prompt s pid = Some e"
  shows "(\<exists>p'. st_get_prompt (snd (patch_prompt pid pd now s)) pid = Some p'
      \<and> (pp_collection_id pd \<in> {Omitted, Supplied None, Supplied (Some [])}
           \<longrightarrow> fst (patch_prompt pid pd now s) = Inr (Some p')
             \<and> collection_id p' = collection_id e)
      \<and> (collection_id p' = collection_id e
           \<or> (\<exists>c. c \<noteq> [] \<and> pp_collection_id pd = Supplied (Some c)
                 \<and> st_get_collection s c \<noteq> None \<and> collection_id p' = Some c)))
    \<and> (b_collection_id d = None \<longrightarrow>
         (\<exists>q. fst (update_prompt pid d now s) = Inr (Some q)
            \<and> st_get_prompt (snd (update_prompt pid d now s)) pid = Some q
            \<and> collection_id q = None))"
proof
  show "\<exists>p'. st_get_prompt (snd (patch_prompt pid pd now s)) pid = Some p'
      \<and> (pp_collection_id pd \<in> {Omitted, Supplied None, Supplied (Some [])}
           \<longrightarrow> fst (patch_prompt pid pd now s) = Inr (Some p')
             \<and> collection_id p' = collection_id e)
      \<and> (collection_id p' = collection_id e
           \<or> (\<exists>c. c \<noteq> [] \<and> pp_collection_id pd = Supplied (Some c)
                 \<and> st_get_collection s c \<noteq> None \<and> collection_id p' = Some c))"
  proof (cases "\<forall>c. pp_collection_id pd = Supplied (Some c) \<and> c \<noteq> []
                  \<longrightarrow> st_get_collection s c \<noteq> None")
    case True
    from patch_loop_ok[OF True, of e] obtain u where u: "patch_loop s (fields_set pd) e = Inr u"
      and keep: "pp_collection_id pd \<in> {Omitted, Supplied None, Supplied (Some [])}
            \<longrightarrow> collection_id u = collection_id e"
      and new: "\<forall>x. pp_collection_id pd = Supplied (Some x) \<and> x \<noteq> [] \<longrightarrow> collection_id u = Some x"
      by blast
    have "collection_id u = collection_id e
           \<or> (\<exists>c. c \<noteq> [] \<and> pp_collection_id pd = Supplied (Some c)
                 \<and> st_get_collection s c \<noteq> None \<and> collection_id u = Some c)"
    proof (cases "pp_collection_id pd")
      case Omitted
      with keep show ?thesis by simp
    next
      case (Supplied v)
      show ?thesis
      proof (cases v)
        case None
        with Supplied keep show ?thesis by simp
      next
        case (Some x)
        with Supplied keep new True show ?thesis by (cases "x = []") auto
      qed
    qed
    with keep show ?thesis
      using patch_prompt_ok[OF assms u, of now] by simp
  next
    case False
    then obtain c where c: "pp_collection_id pd = Supplied (Some c)" "c \<noteq> []"
      "st_get_collection s c = None" by blast
    from patch_prompt_bad[OF assms c] c assms show ?thesis by simp
  qed
next
  show "b_collection_id d = None \<longrightarrow>
         (\<exists>q. fst (update_prompt pid d now s) = Inr (Some q)
            \<and> st_get_prompt (snd (update_prompt pid d now s)) pid = Some q
            \<and> collection_id q = None)"
    using assms
    by (simp add: update_prompt_def st_update_prompt_found st_get_prompt_set Let_def)
qed

theorem patch_cannot_clear_collection_witness:
  "st_get_prompt ex_storage ''p1'' = Some ex_prompt1
   \<and> pp_collection_id ex_patch_empty \<in> {Omitted, Supplied None, Supplied (Some [])}
   \<and> b_collection_id ex_update_detach = None
   \<and> (\<exists>p'. st_get_prompt (snd (patch_prompt ''p1'' ex_patch_empty 9 ex_storage)) ''p1'' = Some p'
        \<and> collection_id p' = Some ''c1'')
   \<and> (\<exists>q. st_get_prompt (snd (update_prompt ''p1'' ex_update_detach 9 ex_storage)) ''p1'' = Some q
        \<and> collection_id q = None)"
  using patch_cannot_clear_collection[of ex_storage "''p1''" ex_prompt1 ex_patch_empty 9
      ex_update_detach]
  by (auto simp: ex_get_prompt1 ex_patch_empty_def ex_update_detach_def ex_prompt1_def)

section \<open>The effect of each handler on the storage\<close>

lemma snd_st_delete_prompt:
  "snd (st_delete_prompt k s) = s\<lparr>prompts := dict_del k (prompts s)\<rparr>"
  by (simp add: st_delete_prompt_def dict_del_absent)

lemma delete_members_eq:
  "delete_members ps s = s\<lparr>prompts := filter (\<lambda>e. fst e \<notin> p_id ` set ps) (prompts s)\<rparr>"
proof (induction ps arbitrary: s)
  case Nil
  then show ?case by simp
next
  case (Cons p ps)
  have "filter (\<lambda>e. fst e \<notin> p_id ` set ps) (dict_del (p_id p) (prompts s))
      = filter (\<lambda>e. fst e \<notin> p_id ` set (p # ps)) (prompts s)"
    by (auto simp: dict_del_def intro: filter_cong)
  then show ?case by (simp add: Cons.IH snd_st_delete_prompt)
qed

lemma patch_loop_p_id: "patch_loop s fs u = Inr u' \<Longrightarrow> p_id u' = p_id u"
proof (induction fs arbitrary: u)
  case Nil
  then show ?case by simp
next
  case (Cons a fs)
  obtain f v where a: "a = (f, v)" by (cases a)
  from Cons show ?case unfolding a
    by (cases f) (auto split: option.splits if_splits)
qed

lemma create_prompt_effect:
  "snd (create_prompt d i t1 t2 s) = s \<or>
   snd (create_prompt d i t1 t2 s) =
     s\<lparr>prompts := dict_set i \<lparr>p_id = i, title = b_title d, content = b_content d,
          description = b_description d, collection_id = b_collection_id d,
          created_at = t1, updated_at = t2\<rparr> (prompts s)\<rparr>"
  by (simp add: create_prompt_def st_create_prompt_def Let_def)

lemma update_prompt_effect:
  "snd (update_prompt pid d now s) = s \<or>
   (\<exists>e. st_get_prompt s pid = Some e \<and>
     snd (update_prompt pid d now s) =
       s\<lparr>prompts := dict_set pid \<lparr>p_id = p_id e, title = b_title d, content = b_content d,
            description = b_description d, collection_id = b_collection_id d,
            created_at = created_at e, updated_at = now\<rparr> (prompts s)\<rparr>)"
  by (simp add: update_prompt_def st_update_prompt_def Let_def split: option.splits)

lemma patch_prompt_effect:
  "snd (patch_prompt pid d now s) = s \<or>
   (\<exists>e u. st_get_prompt s pid = Some e \<and> patch_loop s (fields_set d) e = Inr u \<and>
     snd (patch_prompt pid d now s) =
       s\<lparr>prompts := dict_set pid (u\<lparr>updated_at := now\<rparr>) (prompts s)\<rparr>)"
  by (simp add: patch_prompt_def st_update_prompt_def Let_def split: option.splits sum.splits)

lemma delete_prompt_effect:
  "snd (delete_prompt pid s) = s\<lparr>prompts := dict_del pid (prompts s)\<rparr>"
  by (simp add: delete_prompt_def Let_def split: prod.splits)
     (metis snd_st_delete_prompt snd_conv)

lemma create_collection_effect:
  "snd (create_collection d i t s) =
     s\<lparr>collections := dict_set i \<lparr>c_id = i, name = cc_name d,
          c_description = cc_description d, c_created_at = t\<rparr> (collections s)\<rparr>"
  by (simp add: create_collection_def st_create_collection_def Let_def)

lemma delete_collection_effect:
  "snd (delete_collection cid s) =
     \<lparr>prompts = filter (\<lambda>e. fst e \<notin> p_id ` set (st_get_prompts_by_collection s cid)) (prompts s),
      collections = dict_del cid (collections s)\<rparr>"
  by (simp add: delete_collection_def delete_members_eq st_delete_collection_def
      dict_del_absent Let_def split: prod.splits)

lemma read_only_effect:
  "snd (list_prompts lower cid q s) = s" "snd (get_prompt pid s) = s"
  "snd (list_collections s) = s" "snd (get_collection c s) = s"
  by (simp_all add: list_prompts_def get_prompt_def list_collections_def get_collection_def
      Let_def split: option.splits)

section \<open>Well-formedness is preserved\<close>

lemma wf_create_prompt: "wf_storage s \<Longrightarrow> wf_storage (snd (create_prompt d i t1 t2 s))"
  using create_prompt_effect[of d i t1 t2 s]
  by (auto simp: wf_storage_def dict_ok_set)

lemma wf_update_prompt:
  assumes "wf_storage s" shows "wf_storage (snd (update_prompt pid d now s))"
  using update_prompt_effect[of pid d now s]
proof (elim disjE exE conjE)
  fix e
  assume e: "st_get_prompt s pid = Some e"
    and eq: "snd (update_prompt pid d now s) =
       s\<lparr>prompts := dict_set pid \<lparr>p_id = p_id e, title = b_title d, content = b_content d,
            description = b_description d, collection_id = b_collection_id d,
            created_at = created_at e, updated_at = now\<rparr> (prompts s)\<rparr>"
  from assms e have "p_id e = pid"
    using dict_ok_get[of p_id "prompts s" pid e] by (simp add: wf_storage_def st_get_prompt_def)
  with assms show ?thesis unfolding eq by (simp add: wf_storage_def dict_ok_set)
qed (simp add: assms)

lemma wf_patch_prompt:
  assumes "wf_storage s" shows "wf_storage (snd (patch_prompt pid d now s))"
  using patch_prompt_effect[of pid d now s]
proof (elim disjE exE conjE)
  fix e u
  assume e: "st_get_prompt s pid = Some e"
    and u: "patch_loop s (fields_set d) e = Inr u"
    and eq: "snd (patch_prompt pid d now s) =
       s\<lparr>prompts := dict_set pid (u\<lparr>updated_at := now\<rparr>) (prompts s)\<rparr>"
  from assms e have "p_id e = pid"
    using dict_ok_get[of p_id "prompts s" pid e] by (simp add: wf_storage_def st_get_prompt_def)
  with u have "p_id u = pid" by (simp add: patch_loop_p_id)
  with assms show ?thesis unfolding eq by (simp add: wf_storage_def dict_ok_set)
qed (simp add: assms)

lemma wf_exec: "wf_storage s \<Longrightarrow> wf_storage (exec lower r s)"
proof (cases r)
  case (CreatePrompt d i t1 t2)
  then show "wf_storage s \<Longrightarrow> ?thesis" by (simp add: wf_create_prompt)
next
  case (UpdatePrompt pid d now)
  then show "wf_storage s \<Longrightarrow> ?thesis" by (simp add: wf_update_prompt)
next
  case (PatchPrompt pid d now)
  then show "wf_storage s \<Longrightarrow> ?thesis" by (simp add: wf_patch_prompt)
next
  case (DeletePrompt pid)
  then show "wf_storage s \<Longrightarrow> ?thesis"
    by (simp add: delete_prompt_effect wf_storage_def dict_ok_del)
next
  case (CreateCollection d i t)
  then show "wf_storage s \<Longrightarrow> ?thesis"
    by (simp add: create_collection_effect wf_storage_def dict_ok_set)
next
  case (DeleteCollection cid)
  then show "wf_storage s \<Longrightarrow> ?thesis"
    by (simp add: delete_collection_effect wf_storage_def dict_ok_filter dict_ok_del)
qed (simp_all add: read_only_effect)

lemma wf_run: "wf_storage s \<Longrightarrow> wf_storage (run lower rs s)"
  by (induction rs arbitrary: s) (simp_all add: wf_exec)

lemma wf_init: "wf_storage init_storage"
  by (simp add: wf_storage_def dict_ok_def init_storage_def)

lemma wf_reachable: "wf_storage (run lower rs init_storage)"
  by (simp add: wf_run wf_init)

text \<open>
  C10. Whatever requests were served since the storage was empty, every prompt in the
  prompts dictionary sits under the key that is its \<^verbatim>\<open>id\<close> and every collection under
  the key that is its \<^verbatim>\<open>id\<close>; so a prompt or a collection that a lookup by identifier
  returns carries the identifier that was asked for.
\<close>

theorem keys_are_ids:
  "let s = run lower rs init_storage in
     (\<forall>e \<in> set (prompts s). p_id (snd e) = fst e)
   \<and> (\<forall>e \<in> set (collections s). c_id (snd e) = fst e)
   \<and> (\<forall>k p. fst (get_prompt k s) = Inr p \<longrightarrow> p_id p = k)
   \<and> (\<forall>k c. fst (get_collection k s) = Inr c \<longrightarrow> c_id c = k)"
proof -
  define s where "s = run lower rs init_storage"
  have wf: "wf_storage s" unfolding s_def by (rule wf_reachable)
  have 1: "\<forall>e \<in> set (prompts s). p_id (snd e) = fst e"
    and 2: "\<forall>e \<in> set (collections s). c_id (snd e) = fst e"
    using wf by (simp_all add: wf_storage_def dict_ok_def)
  have 3: "p_id p = k" if "fst (get_prompt k s) = Inr p" for k p
  proof -
    from that have "dict_get (prompts s) k = Some p"
      by (simp add: get_prompt_def st_get_prompt_def split: option.splits)
    with wf show ?thesis using dict_ok_get[of p_id "prompts s" k p] by (simp add: wf_storage_def)
  qed
  have 4: "c_id c = k" if "fst (get_collection k s) = Inr c" for k c
  proof -
    from that have "dict_get (collections s) k = Some c"
      by (simp add: get_collection_def st_get_collection_def split: option.splits)
    with wf show ?thesis
      using dict_ok_get[of c_id "collections s" k c] by (simp add: wf_storage_def)
  qed
  from 1 2 3 4 show ?thesis unfolding s_def Let_def by blast
qed

theorem keys_are_ids_witness:
  "run ascii_lower ex_requests init_storage = ex_storage
   \<and> (''p1'', ex_prompt1) \<in> set (prompts ex_storage) \<and> p_id ex_prompt1 = ''p1''
   \<and> fst (get_prompt ''p2'' ex_storage) = Inr ex_prompt2 \<and> p_id ex_prompt2 = ''p2''
   \<and> fst (get_collection ''c1'' ex_storage) = Inr ex_collection \<and> c_id ex_collection = ''c1''"
proof -
  have m: "(''p1'', ex_prompt1) \<in> set (prompts ex_storage)"
    by (simp add: ex_storage_def)
  have g: "fst (get_prompt ''p2'' ex_storage) = Inr ex_prompt2"
    by (simp add: get_prompt_def ex_get_prompt2)
  have c: "fst (get_collection ''c1'' ex_storage) = Inr ex_collection"
    by (simp add: get_collection_def ex_get_collection)
  from keys_are_ids[of ascii_lower ex_requests]
  have k: "(\<forall>e \<in> set (prompts ex_storage). p_id (snd e) = fst e)
         \<and> (\<forall>k p. fst (get_prompt k ex_storage) = Inr p \<longrightarrow> p_id p = k)
         \<and> (\<forall>k c. fst (get_collection k ex_storage) = Inr c \<longrightarrow> c_id c = k)"
    by (simp add: ex_storage_run Let_def)
  from k m have "p_id ex_prompt1 = ''p1''" by fastforce
  moreover from k g have "p_id ex_prompt2 = ''p2''" by blast
  moreover from k c have "c_id ex_collection = ''c1''" by blast
  ultimately show ?thesis using m g c by (simp add: ex_storage_run)
qed

section \<open>Cascading delete\<close>

lemma dict_get_filter:
  "distinct (map fst d) \<Longrightarrow>
   dict_get (filter P d) k =
     (case dict_get d k of None \<Rightarrow> None | Some v \<Rightarrow> if P (k, v) then Some v else None)"
proof (induction d)
  case Nil
  then show ?case by (simp add: dict_get_def)
next
  case (Cons e d)
  obtain k' v' where e: "e = (k', v')" by (cases e)
  show ?case
  proof (cases "k' = k")
    case True
    with Cons.prems e have "k \<notin> fst ` set (filter P d)" by auto
    then have "map_of (filter P d) k = None" by (simp add: map_of_eq_None_iff)
    with True e show ?thesis by (simp add: dict_get_def)
  next
    case False
    with Cons e show ?thesis by (simp add: dict_get_def)
  qed
qed

lemma members_filter:
  assumes "dict_ok p_id ps"
  shows "filter (\<lambda>e. fst e \<notin> p_id ` set (filter (\<lambda>p. collection_id p = Some cid) (map snd ps))) ps
       = filter (\<lambda>e. collection_id (snd e) \<noteq> Some cid) ps"
proof (rule filter_cong[OF refl])
  fix e assume e: "e \<in> set ps"
  from assms have d: "distinct (map fst ps)" and k: "\<forall>x \<in> set ps. p_id (snd x) = fst x"
    by (simp_all add: dict_ok_def)
  show "(fst e \<notin> p_id ` set (filter (\<lambda>p. collection_id p = Some cid) (map snd ps)))
      = (collection_id (snd e) \<noteq> Some cid)"
  proof
    assume a: "fst e \<notin> p_id ` set (filter (\<lambda>p. collection_id p = Some cid) (map snd ps))"
    show "collection_id (snd e) \<noteq> Some cid"
    proof
      assume "collection_id (snd e) = Some cid"
      with e have "snd e \<in> set (filter (\<lambda>p. collection_id p = Some cid) (map snd ps))" by simp
      then have "p_id (snd e) \<in> p_id ` set (filter (\<lambda>p. collection_id p = Some cid) (map snd ps))"
        by (rule imageI)
      with k e a show False by simp
    qed
  next
    assume a: "collection_id (snd e) \<noteq> Some cid"
    show "fst e \<notin> p_id ` set (filter (\<lambda>p. collection_id p = Some cid) (map snd ps))"
    proof
      assume "fst e \<in> p_id ` set (filter (\<lambda>p. collection_id p = Some cid) (map snd ps))"
      then obtain x where x: "x \<in> set ps" "collection_id (snd x) = Some cid"
        "fst e = p_id (snd x)" by auto
      with k have "fst x = fst e" by simp
      with d x(1) e have "x = e" by (simp add: distinct_map inj_on_def)
      with x(2) a show False by simp
    qed
  qed
qed

text \<open>The cascade on a well-formed storage.\<close>

lemma delete_collection_wf:
  assumes wf: "wf_storage s" and c: "st_get_collection s cid = Some c"
  shows "delete_collection cid s =
           (Inr (), \<lparr>prompts = filter (\<lambda>e. collection_id (snd e) \<noteq> Some cid) (prompts s),
                     collections = dict_del cid (collections s)\<rparr>)"
proof -
  from c have "dict_mem cid (collections s)"
    by (simp add: st_get_collection_def dict_mem_def)
  then have "fst (delete_collection cid s) = Inr ()"
    by (simp add: delete_collection_def delete_members_eq st_delete_collection_def Let_def)
  moreover have "snd (delete_collection cid s) =
      \<lparr>prompts = filter (\<lambda>e. collection_id (snd e) \<noteq> Some cid) (prompts s),
       collections = dict_del cid (collections s)\<rparr>"
    using wf members_filter[of "prompts s" cid]
    by (simp add: delete_collection_effect st_get_prompts_by_collection_def dict_values_def
        wf_storage_def)
  ultimately show ?thesis by (simp add: prod_eq_iff)
qed

text \<open>
  C2. In every storage that requests to the API have built from the empty one, deleting
  a stored collection succeeds and removes the prompts whose \<^verbatim>\<open>collection_id\<close> is the
  identifier of the collection, all of them and no other prompt, and the collection
  itself: the remaining prompts are the others, in their order; the number of prompts
  drops by the number of members; looking up a removed member by its \<^verbatim>\<open>id\<close> raises the
  404 error; every other prompt and every other collection is still there, unchanged;
  and when the collection has no member the prompts dictionary is unchanged.
\<close>

theorem delete_collection_cascade:
  assumes "st_get_collection (run lower rs init_storage) cid = Some c"
  shows "let s = run lower rs init_storage;
             members = st_get_prompts_by_collection s cid;
             s' = snd (delete_collection cid s)
         in fst (delete_collection cid s) = Inr ()
          \<and> st_get_all_prompts s'
              = filter (\<lambda>p. collection_id p \<noteq> Some cid) (st_get_all_prompts s)
          \<and> length (st_get_all_prompts s') + length members = length (st_get_all_prompts s)
          \<and> (\<forall>p \<in> set members.
                fst (get_prompt (p_id p) s') = Inl (HTTPException 404 ''Prompt not found''))
          \<and> (\<forall>k p. st_get_prompt s k = Some p \<and> collection_id p \<noteq> Some cid
                \<longrightarrow> st_get_prompt s' k = Some p)
          \<and> (\<forall>k. st_get_prompt s k = None \<longrightarrow> st_get_prompt s' k = None)
          \<and> st_get_collection s' cid = None
          \<and> (\<forall>k. k \<noteq> cid \<longrightarrow> st_get_collection s' k = st_get_collection s k)
          \<and> (members = [] \<longrightarrow> prompts s' = prompts s)"
proof -
  define s where "s = run lower rs init_storage"
  define Q where "Q = (\<lambda>e :: string \<times> prompt. collection_id (snd e) \<noteq> Some cid)"
  define s' where "s' = \<lparr>prompts = filter Q (prompts s), collections = dict_del cid (collections s)\<rparr>"
  have wf: "wf_storage s" unfolding s_def by (rule wf_reachable)
  then have d: "distinct (map fst (prompts s))"
    and ids: "\<forall>e \<in> set (prompts s). p_id (snd e) = fst e"
    by (simp_all add: wf_storage_def dict_ok_def)
  from assms have c: "st_get_collection s cid = Some c" by (simp add: s_def)
  have dc: "delete_collection cid s = (Inr (), s')"
    using delete_collection_wf[OF wf c] by (simp add: s'_def Q_def)
  have get: "st_get_prompt s' k =
      (case st_get_prompt s k of None \<Rightarrow> None | Some v \<Rightarrow> if Q (k, v) then Some v else None)" for k
    using dict_get_filter[OF d, of Q k] by (simp add: st_get_prompt_def s'_def)
  have members: "st_get_prompts_by_collection s cid = map snd (filter (\<lambda>e. \<not> Q e) (prompts s))"
    by (simp add: st_get_prompts_by_collection_def dict_values_def filter_map comp_def Q_def)
  have 1: "st_get_all_prompts s'
      = filter (\<lambda>p. collection_id p \<noteq> Some cid) (st_get_all_prompts s)"
    by (simp add: st_get_all_prompts_def dict_values_def s'_def filter_map comp_def Q_def)
  have 2: "length (st_get_all_prompts s') + length (st_get_prompts_by_collection s cid)
      = length (st_get_all_prompts s)"
    using sum_length_filter_compl[of Q "prompts s"]
    by (simp add: members st_get_all_prompts_def dict_values_def s'_def)
  have 3: "fst (get_prompt (p_id p) s') = Inl (HTTPException 404 ''Prompt not found'')"
    if "p \<in> set (st_get_prompts_by_collection s cid)" for p
  proof -
    from that obtain e where e: "e \<in> set (prompts s)" "\<not> Q e" "p = snd e"
      unfolding members by auto
    with ids have "(p_id p, p) \<in> set (prompts s)" by simp
    with d have "st_get_prompt s (p_id p) = Some p"
      by (simp add: st_get_prompt_def dict_get_def)
    with e have "st_get_prompt s' (p_id p) = None" by (simp add: get Q_def)
    then show ?thesis by (simp add: get_prompt_def)
  qed
  have 4: "st_get_prompt s' k = Some p"
    if "st_get_prompt s k = Some p \<and> collection_id p \<noteq> Some cid" for k p
    using that by (simp add: get Q_def)
  have 5: "st_get_prompt s' k = None" if "st_get_prompt s k = None" for k
    using that by (simp add: get)
  have 6: "st_get_collection s' cid = None"
    by (simp add: st_get_collection_def s'_def dict_get_del)
  have 7: "st_get_collection s' k = st_get_collection s k" if "k \<noteq> cid" for k
    using that by (simp add: st_get_collection_def s'_def dict_get_del)
  have 8: "prompts s' = prompts s" if "st_get_prompts_by_collection s cid = []"
  proof -
    from that have "filter (\<lambda>e. \<not> Q e) (prompts s) = []" by (simp add: members)
    then have "\<forall>e \<in> set (prompts s). Q e" by (simp add: filter_empty_conv)
    then show ?thesis by (simp add: s'_def)
  qed
  from 1 2 3 4 5 6 7 8 show ?thesis
    unfolding Let_def s_def[symmetric] dc fst_conv snd_conv by blast
qed

theorem delete_collection_cascade_witness:
  "st_get_collection (run ascii_lower ex_requests init_storage) ''c1'' = Some ex_collection
   \<and> st_get_prompts_by_collection ex_storage ''c1'' = [ex_prompt1]
   \<and> fst (delete_collection ''c1'' ex_storage) = Inr ()
   \<and> st_get_all_prompts (snd (delete_collection ''c1'' ex_storage)) = [ex_prompt2]
   \<and> fst (get_prompt ''p1'' (snd (delete_collection ''c1'' ex_storage)))
       = Inl (HTTPException 404 ''Prompt not found'')
   \<and> st_get_prompt (snd (delete_collection ''c1'' ex_storage)) ''p2'' = Some ex_prompt2
   \<and> st_get_collection (snd (delete_collection ''c1'' ex_storage)) ''c1'' = None"
proof -
  have m: "st_get_prompts_by_collection ex_storage ''c1'' = [ex_prompt1]"
    by (simp add: st_get_prompts_by_collection_def dict_values_def ex_storage_def
        ex_prompt1_def ex_prompt2_def)
  have a: "st_get_all_prompts ex_storage = [ex_prompt1, ex_prompt2]"
    by (simp add: st_get_all_prompts_def dict_values_def ex_storage_def)
  have i: "p_id ex_prompt1 = ''p1''" "collection_id ex_prompt1 = Some ''c1''"
    "collection_id ex_prompt2 = None"
    by (simp_all add: ex_prompt1_def ex_prompt2_def)
  show ?thesis
    using delete_collection_cascade[of ascii_lower ex_requests "''c1''" ex_collection] i
    by (simp add: ex_storage_run ex_get_collection ex_get_prompt2 m a Let_def)
qed

text \<open>
  The order of the two steps of \<^verbatim>\<open>delete_collection\<close> shows only when the function is
  called directly with the empty string, which the route
  \<^verbatim>\<open>/collections/{collection_id}\<close> never passes (a path parameter is a non-empty
  segment): the prompt \<open>ex_prompt3\<close> was created with \<^verbatim>\<open>collection_id=""\<close>, no collection
  has the key \<^verbatim>\<open>""\<close>, and the call raises the 404 error after the prompt is gone.
\<close>

lemma delete_collection_empty_id:
  "run ascii_lower ex_loose_requests init_storage = ex_loose_storage
   \<and> st_get_collection ex_loose_storage [] = None
   \<and> st_get_prompt ex_loose_storage ''p3'' = Some ex_prompt3
   \<and> fst (delete_collection [] ex_loose_storage) = Inl (HTTPException 404 ''Collection not found'')
   \<and> NotFound (HTTPException 404 ''Collection not found'')
   \<and> st_get_prompt (snd (delete_collection [] ex_loose_storage)) ''p3'' = None
   \<and> snd (delete_collection [] ex_loose_storage) \<noteq> ex_loose_storage"
  by (simp add: ex_loose_requests_def ex_loose_storage_def ex_prompt3_def init_storage_def
      create_prompt_def st_create_prompt_def st_get_collection_def st_get_prompt_def
      dict_get_def dict_mem_def dict_del_def dict_values_def delete_collection_def
      st_get_prompts_by_collection_def st_delete_prompt_def st_delete_collection_def
      NotFound_def Let_def)

section \<open>Search and sort\<close>

lemma starts_with_prefix: "starts_with s q = prefix q s"
  by (induction s q rule: starts_with.induct) auto

lemma str_in_sublist: "str_in q s = sublist q s"
  by (induction s) (auto simp: starts_with_prefix sublist_Cons_right)

text \<open>
  C7. For a lowering function that maps the empty string to itself, as \<^verbatim>\<open>str.lower\<close>
  does, \<open>search_prompts\<close> returns the prompts, in the order of the input list, for
  which the lowered query is a contiguous part of the lowered title or, when the prompt
  has a description, of the lowered description; a prompt with no description is matched
  on its title only; and the empty query returns the input list as it is.
\<close>

theorem search_prompts_matches:
  assumes "lower [] = []"
  shows "search_prompts lower ps query =
           filter (\<lambda>p. sublist (lower query) (lower (title p))
                     \<or> (\<exists>d. description p = Some d \<and> sublist (lower query) (lower d))) ps
       \<and> subseq (search_prompts lower ps query) ps
       \<and> (\<forall>p \<in> set ps. description p = None \<longrightarrow>
            (p \<in> set (search_prompts lower ps query)
               \<longleftrightarrow> sublist (lower query) (lower (title p))))
       \<and> search_prompts lower ps [] = ps"
proof -
  have eq: "(str_in (lower query) (lower (title p)) \<or>
             (case description p of None \<Rightarrow> False
              | Some d \<Rightarrow> d \<noteq> [] \<and> str_in (lower query) (lower d)))
          = (sublist (lower query) (lower (title p))
              \<or> (\<exists>d. description p = Some d \<and> sublist (lower query) (lower d)))"
    for p :: prompt
  proof (cases "description p")
    case None
    then show ?thesis by (simp add: str_in_sublist)
  next
    case (Some d)
    show ?thesis
    proof (cases "d = []")
      case True
      with Some assms show ?thesis by (auto simp: str_in_sublist)
    next
      case False
      with Some show ?thesis by (simp add: str_in_sublist)
    qed
  qed
  have 1: "search_prompts lower ps query =
           filter (\<lambda>p. sublist (lower query) (lower (title p))
                     \<or> (\<exists>d. description p = Some d \<and> sublist (lower query) (lower d))) ps"
    unfolding search_prompts_def Let_def eq ..
  have 2: "subseq (search_prompts lower ps query) ps"
    unfolding 1 by simp
  have 3: "\<forall>p \<in> set ps. description p = None \<longrightarrow>
            (p \<in> set (search_prompts lower ps query)
               \<longleftrightarrow> sublist (lower query) (lower (title p)))"
    unfolding 1 by simp
  have 4: "search_prompts lower ps [] = ps"
    using assms by (simp add: search_prompts_def str_in_sublist)
  from 1 2 3 4 show ?thesis by blast
qed

lemma ascii_lower_examples:
  "ascii_lower ''hello'' = ''hello''" "ascii_lower ''GREETING'' = ''greeting''"
  "ascii_lower ''bye'' = ''bye''"
  "ascii_lower ''Hello World'' = ''hello world''" "ascii_lower ''a greeting'' = ''a greeting''"
  "ascii_lower ''Bye'' = ''bye''" "ascii_lower [] = []"
  by (simp_all add: ascii_lower_def ascii_lower_char_def)

theorem search_prompts_matches_witness:
  "ascii_lower [] = []
   \<and> search_prompts ascii_lower [ex_prompt1, ex_prompt2] ''hello'' = [ex_prompt1]
   \<and> search_prompts ascii_lower [ex_prompt1, ex_prompt2] ''GREETING'' = [ex_prompt1]
   \<and> search_prompts ascii_lower [ex_prompt1, ex_prompt2] ''bye'' = [ex_prompt2]
   \<and> search_prompts ascii_lower [ex_prompt1, ex_prompt2] [] = [ex_prompt1, ex_prompt2]"
proof -
  have f: "title ex_prompt1 = ''Hello World''" "description ex_prompt1 = Some ''a greeting''"
    "title ex_prompt2 = ''Bye''" "description ex_prompt2 = None"
    by (simp_all add: ex_prompt1_def ex_prompt2_def)
  show ?thesis
    using search_prompts_matches[of ascii_lower "[ex_prompt1, ex_prompt2]" "''hello''"]
      search_prompts_matches[of ascii_lower "[ex_prompt1, ex_prompt2]" "''GREETING''"]
      search_prompts_matches[of ascii_lower "[ex_prompt1, ex_prompt2]" "''bye''"]
    by (simp add: f ascii_lower_examples sublist_Cons_right)
qed

lemma py_sorted_mset: "mset (py_sorted f r xs) = mset xs"
  by (simp add: py_sorted_def)

lemma py_sorted_stable:
  "filter (\<lambda>x. f x = k) (py_sorted f r xs) = filter (\<lambda>x. f x = k) xs"
proof (cases r)
  case True
  have "filter (\<lambda>x. f x = k) (rev (sort_key f (rev xs)))
      = rev (filter (\<lambda>x. f x = k) (sort_key f (rev xs)))"
    by (simp add: rev_filter)
  also have "\<dots> = rev (filter (\<lambda>x. f x = k) (rev xs))"
    by (simp only: sort_key_stable)
  also have "\<dots> = filter (\<lambda>x. f x = k) xs"
    by (simp add: rev_filter)
  finally show ?thesis using True by (simp add: py_sorted_def)
next
  case False
  then show ?thesis by (simp add: py_sorted_def sort_key_stable)
qed

lemma py_sorted_ascending: "sorted (map f (py_sorted f False xs))"
  by (simp add: py_sorted_def)

lemma py_sorted_descending: "sorted_wrt (\<lambda>a b. f b \<le> f a) (py_sorted f True xs)"
proof -
  have "sorted (map f (sort_key f (rev xs)))" by simp
  then have "sorted_wrt (\<lambda>a b. f a \<le> f b) (sort_key f (rev xs))"
    by (simp add: sorted_map)
  then show ?thesis by (simp add: py_sorted_def sorted_wrt_rev)
qed

text \<open>
  C8. In either direction \<open>sort_prompts_by_date\<close> returns a permutation of its input
  (the same prompts with the same multiplicities), ordered by \<^verbatim>\<open>created_at\<close>: ascending
  when the flag is off, descending when it is on. The sort is stable: for every
  timestamp, the prompts created at that time come out in the order in which they came
  in.
\<close>

theorem sort_prompts_by_date_stable:
  "mset (sort_prompts_by_date ps descending) = mset ps
   \<and> sorted_wrt (\<lambda>a b. created_at a \<le> created_at b) (sort_prompts_by_date ps False)
   \<and> sorted_wrt (\<lambda>a b. created_at b \<le> created_at a) (sort_prompts_by_date ps True)
   \<and> filter (\<lambda>p. created_at p = t) (sort_prompts_by_date ps descending)
       = filter (\<lambda>p. created_at p = t) ps"
  using py_sorted_ascending[of created_at ps]
  by (simp add: sort_prompts_by_date_def py_sorted_mset py_sorted_stable py_sorted_descending
      sorted_map)

section \<open>Timestamps of the stored prompts\<close>

lemma patch_loop_created_at: "patch_loop s fs u = Inr u' \<Longrightarrow> created_at u' = created_at u"
proof (induction fs arbitrary: u)
  case Nil
  then show ?case by simp
next
  case (Cons a fs)
  obtain f v where a: "a = (f, v)" by (cases a)
  from Cons show ?case unfolding a
    by (cases f) (auto split: option.splits if_splits)
qed

lemma time_inv_mono: "time_inv t s \<Longrightarrow> t \<le> t' \<Longrightarrow> time_inv t' s"
  by (fastforce simp: time_inv_def)

lemma time_inv_set:
  assumes "time_inv t s" and "created_at p \<le> updated_at p" and "updated_at p \<le> t'" and "t \<le> t'"
  shows "time_inv t' (s\<lparr>prompts := dict_set k p (prompts s)\<rparr>)"
  using assms set_dict_set[of k p "prompts s"] by (fastforce simp: time_inv_def)

lemma time_inv_subset:
  "time_inv t s \<Longrightarrow> set (prompts s') \<subseteq> set (prompts s) \<Longrightarrow> time_inv t s'"
  by (auto simp: time_inv_def)

lemma time_inv_get:
  "time_inv t s \<Longrightarrow> st_get_prompt s k = Some e \<Longrightarrow> created_at e \<le> updated_at e \<and> updated_at e \<le> t"
  using dict_get_SomeD[of "prompts s" k e] by (fastforce simp: time_inv_def st_get_prompt_def)

text \<open>One full update or patch at a time \<open>now\<close> that is not before \<open>t\<close>.\<close>

lemma update_prompt_step:
  assumes inv: "time_inv t s" and le: "t \<le> now"
  shows "time_inv now (snd (update_prompt pid d now s))"
    and "st_get_prompt s k = Some p \<Longrightarrow>
         \<exists>p'. st_get_prompt (snd (update_prompt pid d now s)) k = Some p'
            \<and> created_at p' = created_at p \<and> updated_at p \<le> updated_at p'"
proof -
  from update_prompt_effect[of pid d now s]
  consider (same) "snd (update_prompt pid d now s) = s"
    | (upd) e where "st_get_prompt s pid = Some e"
        "snd (update_prompt pid d now s) =
           s\<lparr>prompts := dict_set pid \<lparr>p_id = p_id e, title = b_title d, content = b_content d,
                description = b_description d, collection_id = b_collection_id d,
                created_at = created_at e, updated_at = now\<rparr> (prompts s)\<rparr>"
    by blast
  then have "time_inv now (snd (update_prompt pid d now s))
     \<and> (st_get_prompt s k = Some p \<longrightarrow>
         (\<exists>p'. st_get_prompt (snd (update_prompt pid d now s)) k = Some p'
            \<and> created_at p' = created_at p \<and> updated_at p \<le> updated_at p'))"
  proof cases
    case same
    with inv le show ?thesis by (simp add: time_inv_mono)
  next
    case upd
    from time_inv_get[OF inv upd(1)] le
    have e: "created_at e \<le> now" "updated_at e \<le> now" by simp_all
    with inv le have "time_inv now (snd (update_prompt pid d now s))"
      unfolding upd(2) by (intro time_inv_set[of t]) simp_all
    moreover have "st_get_prompt s k = Some p \<longrightarrow>
         (\<exists>p'. st_get_prompt (snd (update_prompt pid d now s)) k = Some p'
            \<and> created_at p' = created_at p \<and> updated_at p \<le> updated_at p')"
      using upd(1) e unfolding upd(2) by (auto simp: st_get_prompt_set)
    ultimately show ?thesis by simp
  qed
  then show "time_inv now (snd (update_prompt pid d now s))"
    and "st_get_prompt s k = Some p \<Longrightarrow>
         \<exists>p'. st_get_prompt (snd (update_prompt pid d now s)) k = Some p'
            \<and> created_at p' = created_at p \<and> updated_at p \<le> updated_at p'"
    by simp_all
qed

lemma patch_prompt_step:
  assumes inv: "time_inv t s" and le: "t \<le> now"
  shows "time_inv now (snd (patch_prompt pid d now s))"
    and "st_get_prompt s k = Some p \<Longrightarrow>
         \<exists>p'. st_get_prompt (snd (patch_prompt pid d now s)) k = Some p'
            \<and> created_at p' = created_at p \<and> updated_at p \<le> updated_at p'"
proof -
  from patch_prompt_effect[of pid d now s]
  consider (same) "snd (patch_prompt pid d now s) = s"
    | (upd) e u where "st_get_prompt s pid = Some e" "patch_loop s (fields_set d) e = Inr u"
        "snd (patch_prompt pid d now s) =
           s\<lparr>prompts := dict_set pid (u\<lparr>updated_at := now\<rparr>) (prompts s)\<rparr>"
    by blast
  then have "time_inv now (snd (patch_prompt pid d now s))
     \<and> (st_get_prompt s k = Some p \<longrightarrow>
         (\<exists>p'. st_get_prompt (snd (patch_prompt pid d now s)) k = Some p'
            \<and> created_at p' = created_at p \<and> updated_at p \<le> updated_at p'))"
  proof cases
    case same
    with inv le show ?thesis by (simp add: time_inv_mono)
  next
    case upd
    from time_inv_get[OF inv upd(1)] le
    have e: "created_at e \<le> now" "updated_at e \<le> now" by simp_all
    have c: "created_at u = created_at e" using upd(2) by (rule patch_loop_created_at)
    with e inv le have "time_inv now (snd (patch_prompt pid d now s))"
      unfolding upd(3) by (intro time_inv_set[of t]) simp_all
    moreover have "st_get_prompt s k = Some p \<longrightarrow>
         (\<exists>p'. st_get_prompt (snd (patch_prompt pid d now s)) k = Some p'
            \<and> created_at p' = created_at p \<and> updated_at p \<le> updated_at p')"
      using upd(1) e c unfolding upd(3) by (auto simp: st_get_prompt_set)
    ultimately show ?thesis by simp
  qed
  then show "time_inv now (snd (patch_prompt pid d now s))"
    and "st_get_prompt s k = Some p \<Longrightarrow>
         \<exists>p'. st_get_prompt (snd (patch_prompt pid d now s)) k = Some p'
            \<and> created_at p' = created_at p \<and> updated_at p \<le> updated_at p'"
    by simp_all
qed

lemma time_inv_exec:
  assumes inv: "time_inv t s" and srt: "sorted (t # readings r)"
  shows "time_inv (last (t # readings r)) (exec lower r s)"
proof (cases r)
  case (CreatePrompt d i t1 t2)
  with srt have le: "t \<le> t1" "t1 \<le> t2" "t \<le> t2" by auto
  from create_prompt_effect[of d i t1 t2 s] inv le
  have "time_inv t2 (snd (create_prompt d i t1 t2 s))"
    by (elim disjE) (auto intro: time_inv_mono time_inv_set[of t])
  with CreatePrompt show ?thesis by simp
next
  case (UpdatePrompt pid d now)
  with srt inv show ?thesis by (simp add: update_prompt_step(1))
next
  case (PatchPrompt pid d now)
  with srt inv show ?thesis by (simp add: patch_prompt_step(1))
next
  case (DeletePrompt pid)
  have "time_inv t (s\<lparr>prompts := dict_del pid (prompts s)\<rparr>)"
    using set_dict_del[of pid "prompts s"] by (intro time_inv_subset[OF inv]) simp
  with DeletePrompt show ?thesis by (simp add: delete_prompt_effect)
next
  case (CreateCollection d i t')
  with srt inv show ?thesis
    by (auto simp: create_collection_effect time_inv_def)
next
  case (DeleteCollection cid)
  have "time_inv t (snd (delete_collection cid s))"
    unfolding delete_collection_effect by (intro time_inv_subset[OF inv]) auto
  with DeleteCollection show ?thesis by simp
qed (use inv in \<open>simp_all add: read_only_effect\<close>)

lemma time_inv_run:
  "time_inv t s \<Longrightarrow> sorted (t # concat (map readings rs)) \<Longrightarrow>
   time_inv (last (t # concat (map readings rs))) (run lower rs s)"
proof (induction rs arbitrary: t s)
  case Nil
  then show ?case by simp
next
  case (Cons r rs)
  let ?t = "last (t # readings r)"
  from Cons.prems(2) have a: "sorted (t # readings r)"
    and b: "sorted (?t # concat (map readings rs))"
    by (auto simp: sorted_append)
  have c: "last (?t # concat (map readings rs)) = last (t # concat (map readings (r # rs)))"
    by auto
  from Cons.IH[OF time_inv_exec[OF Cons.prems(1) a] b] show ?case
    unfolding c by simp
qed

lemma updates_run:
  "time_inv t s \<Longrightarrow> sorted (t # concat (map readings us)) \<Longrightarrow>
   \<forall>u \<in> set us. is_update_or_patch u \<Longrightarrow> st_get_prompt s k = Some p \<Longrightarrow>
   \<exists>p'. st_get_prompt (run lower us s) k = Some p'
      \<and> created_at p' = created_at p \<and> updated_at p \<le> updated_at p'"
proof (induction us arbitrary: t s p)
  case Nil
  then show ?case by simp
next
  case (Cons u us)
  let ?t = "last (t # readings u)"
  from Cons.prems(2) have a: "sorted (t # readings u)"
    and b: "sorted (?t # concat (map readings us))"
    by (auto simp: sorted_append)
  from Cons.prems(3) have u: "is_update_or_patch u" and us: "\<forall>u \<in> set us. is_update_or_patch u"
    by simp_all
  have inv': "time_inv ?t (exec lower u s)"
    by (rule time_inv_exec[OF Cons.prems(1) a])
  from u a Cons.prems(1,4) obtain q where q: "st_get_prompt (exec lower u s) k = Some q"
    "created_at q = created_at p" "updated_at p \<le> updated_at q"
    by (cases u) (auto dest: update_prompt_step(2) patch_prompt_step(2))
  from Cons.IH[OF inv' b us q(1)] q show ?case by auto
qed

lemma created_at_kept:
  "map_option created_at (st_get_prompt (snd (update_prompt pid d now s)) k)
     = map_option created_at (st_get_prompt s k)"
  "map_option created_at (st_get_prompt (snd (patch_prompt pid pd now s)) k)
     = map_option created_at (st_get_prompt s k)"
proof -
  show "map_option created_at (st_get_prompt (snd (update_prompt pid d now s)) k)
     = map_option created_at (st_get_prompt s k)"
    using update_prompt_effect[of pid d now s] by (auto simp: st_get_prompt_set)
  show "map_option created_at (st_get_prompt (snd (patch_prompt pid pd now s)) k)
     = map_option created_at (st_get_prompt s k)"
    using patch_prompt_effect[of pid pd now s]
    by (auto simp: st_get_prompt_set dest: patch_loop_created_at)
qed

text \<open>
  C5, as the code has it. No full update and no patch, in any storage, changes the
  \<^verbatim>\<open>created_at\<close> of any stored prompt. The handlers store the readings of the clock as
  they come and compare nothing, so the order of the timestamps is the order of the
  readings: when the readings of the clock, in the order in which the requests
  take them, never decrease, then in every storage that requests have built from the empty
  one, every stored prompt has \<^verbatim>\<open>created_at\<close> not later than \<^verbatim>\<open>updated_at\<close>; and after
  any further sequence of full updates and patches every prompt that was stored is still
  stored under its key, with the same \<^verbatim>\<open>created_at\<close> and an \<^verbatim>\<open>updated_at\<close> that is not
  earlier than before.
\<close>

theorem prompt_timestamps:
  "(\<forall>k. map_option created_at (st_get_prompt (snd (update_prompt pid d now s0)) k)
         = map_option created_at (st_get_prompt s0 k))
   \<and> (\<forall>k. map_option created_at (st_get_prompt (snd (patch_prompt pid pd now s0)) k)
         = map_option created_at (st_get_prompt s0 k))
   \<and> (sorted (concat (map readings (rs @ us))) \<and> (\<forall>u \<in> set us. is_update_or_patch u) \<longrightarrow>
        (let s = run lower rs init_storage; s' = run lower us s in
           (\<forall>e \<in> set (prompts s). created_at (snd e) \<le> updated_at (snd e))
         \<and> (\<forall>k p. st_get_prompt s k = Some p \<longrightarrow>
               (\<exists>p'. st_get_prompt s' k = Some p'
                  \<and> created_at p' = created_at p \<and> updated_at p \<le> updated_at p'))))"
proof (intro conjI impI allI)
  fix k
  show "map_option created_at (st_get_prompt (snd (update_prompt pid d now s0)) k)
         = map_option created_at (st_get_prompt s0 k)"
    by (rule created_at_kept)
  show "map_option created_at (st_get_prompt (snd (patch_prompt pid pd now s0)) k)
         = map_option created_at (st_get_prompt s0 k)"
    by (rule created_at_kept)
next
  assume a: "sorted (concat (map readings (rs @ us))) \<and> (\<forall>u \<in> set us. is_update_or_patch u)"
  define xs where "xs = concat (map readings rs)"
  define ys where "ys = concat (map readings us)"
  define t0 where "t0 = (case xs @ ys of [] \<Rightarrow> 0 | x # _ \<Rightarrow> x)"
  define s where "s = run lower rs init_storage"
  from a have srt: "sorted (xs @ ys)" by (simp add: xs_def ys_def)
  then have srt0: "sorted (t0 # xs @ ys)"
    by (cases "xs @ ys") (auto simp: t0_def)
  then have sx: "sorted (t0 # xs)" and sy: "sorted (last (t0 # xs) # ys)"
    by (auto simp: sorted_append)
  have "time_inv t0 init_storage" by (simp add: time_inv_def init_storage_def)
  from time_inv_run[OF this, of rs lower] sx
  have inv: "time_inv (last (t0 # xs)) s" by (simp add: xs_def s_def)
  then have 1: "\<forall>e \<in> set (prompts s). created_at (snd e) \<le> updated_at (snd e)"
    by (simp add: time_inv_def)
  have 2: "\<forall>k p. st_get_prompt s k = Some p \<longrightarrow>
               (\<exists>p'. st_get_prompt (run lower us s) k = Some p'
                  \<and> created_at p' = created_at p \<and> updated_at p \<le> updated_at p')"
    using updates_run[OF inv, of us _ _ lower] sy a by (simp add: ys_def)
  from 1 2 show "let s = run lower rs init_storage; s' = run lower us s in
           (\<forall>e \<in> set (prompts s). created_at (snd e) \<le> updated_at (snd e))
         \<and> (\<forall>k p. st_get_prompt s k = Some p \<longrightarrow>
               (\<exists>p'. st_get_prompt s' k = Some p'
                  \<and> created_at p' = created_at p \<and> updated_at p \<le> updated_at p'))"
    unfolding Let_def s_def by blast
qed

theorem prompt_timestamps_witness:
  "sorted (concat (map readings (ex_requests @ ex_updates)))
   \<and> list_all is_update_or_patch ex_updates
   \<and> st_get_prompt ex_storage ''p2'' = Some ex_prompt2
   \<and> created_at ex_prompt2 = 4 \<and> updated_at ex_prompt2 = 5
   \<and> (\<exists>p'. st_get_prompt (run ascii_lower ex_updates ex_storage) ''p2'' = Some p'
         \<and> created_at p' = 4 \<and> 5 \<le> updated_at p')"
proof -
  have a: "sorted (concat (map readings (ex_requests @ ex_updates)))"
    "\<forall>u \<in> set ex_updates. is_update_or_patch u"
    by (simp_all add: ex_requests_def ex_updates_def)
  have b: "created_at ex_prompt2 = 4" "updated_at ex_prompt2 = 5"
    by (simp_all add: ex_prompt2_def)
  from prompt_timestamps[of "''p2''" ex_update_c1 9 ex_storage ex_patch_empty
      ex_requests ex_updates ascii_lower] a
  have "\<forall>k p. st_get_prompt ex_storage k = Some p \<longrightarrow>
          (\<exists>p'. st_get_prompt (run ascii_lower ex_updates ex_storage) k = Some p'
             \<and> created_at p' = created_at p \<and> updated_at p \<le> updated_at p')"
    by (simp add: ex_storage_run Let_def)
  with ex_get_prompt2 b
  have "\<exists>p'. st_get_prompt (run ascii_lower ex_updates ex_storage) ''p2'' = Some p'
         \<and> created_at p' = 4 \<and> 5 \<le> updated_at p'"
    by fastforce
  with a b show ?thesis by (simp add: ex_get_prompt2 list_all_iff)
qed

text \<open>
  The claim C5 as it is written fails when the clock steps back. A prompt created while
  the clock goes from 5 to 3 between the two readings is stored with \<^verbatim>\<open>created_at\<close> after
  \<^verbatim>\<open>updated_at\<close>; and a full update of the second prompt of the sample session that reads
  the time 1 succeeds and brings its \<^verbatim>\<open>updated_at\<close> from 5 down to 1, below its
  \<^verbatim>\<open>created_at\<close> (4).
\<close>

theorem prompt_timestamps_counterexample:
  "st_get_prompt (run ascii_lower ex_clock_back_requests init_storage) ''p4''
     = Some ex_prompt4
   \<and> created_at ex_prompt4 = 5 \<and> updated_at ex_prompt4 = 3
   \<and> \<not> created_at ex_prompt4 \<le> updated_at ex_prompt4
   \<and> st_get_prompt ex_storage ''p2'' = Some ex_prompt2
   \<and> created_at ex_prompt2 = 4 \<and> updated_at ex_prompt2 = 5
   \<and> fst (update_prompt ''p2'' ex_update_c1 1 ex_storage)
       = Inr (Some (ex_prompt2_updated\<lparr>updated_at := 1\<rparr>))
   \<and> st_get_prompt (snd (update_prompt ''p2'' ex_update_c1 1 ex_storage)) ''p2''
       = Some (ex_prompt2_updated\<lparr>updated_at := 1\<rparr>)
   \<and> \<not> updated_at ex_prompt2 \<le> updated_at (ex_prompt2_updated\<lparr>updated_at := 1\<rparr>)
   \<and> \<not> created_at (ex_prompt2_updated\<lparr>updated_at := 1\<rparr>)
         \<le> updated_at (ex_prompt2_updated\<lparr>updated_at := 1\<rparr>)"
proof -
  have ok: "\<not> (case b_collection_id ex_update_c1 of None \<Rightarrow> False
               | Some c \<Rightarrow> c \<noteq> [] \<and> st_get_collection ex_storage c = None)"
    by (simp add: ex_update_c1_def ex_get_collection)
  have u: "update_prompt ''p2'' ex_update_c1 1 ex_storage
      = (Inr (Some (ex_prompt2_updated\<lparr>updated_at := 1\<rparr>)),
         ex_storage\<lparr>prompts := dict_set ''p2'' (ex_prompt2_updated\<lparr>updated_at := 1\<rparr>)
                                    (prompts ex_storage)\<rparr>)"
    using ok
    by (simp add: update_prompt_def ex_get_prompt2 st_update_prompt_found Let_def
        ex_update_c1_def ex_prompt2_updated_def ex_prompt2_def)
  have c: "st_get_prompt (run ascii_lower ex_clock_back_requests init_storage) ''p4''
      = Some ex_prompt4"
    by (simp add: ex_prompt4_def ex_clock_back_requests_def init_storage_def create_prompt_def
        st_create_prompt_def st_get_prompt_def dict_get_def Let_def)
  have t: "created_at ex_prompt4 = 5" "updated_at ex_prompt4 = 3"
    "created_at ex_prompt2 = 4" "updated_at ex_prompt2 = 5"
    "created_at ex_prompt2_updated = 4"
    by (simp_all add: ex_prompt4_def ex_prompt2_def ex_prompt2_updated_def)
  show ?thesis
    unfolding u by (simp add: c t st_get_prompt_set ex_get_prompt2)
qed

section \<open>Deleting a collection that does not exist\<close>

lemma ref_ok_prompts: "ref_ok (s\<lparr>prompts := ps\<rparr>) p = ref_ok s p"
  by (simp add: ref_ok_def st_get_collection_def)

lemma ref_inv_set:
  assumes "ref_inv s" and "ref_ok s p"
  shows "ref_inv (s\<lparr>prompts := dict_set k p (prompts s)\<rparr>)"
  using assms set_dict_set[of k p "prompts s"]
  by (fastforce simp: ref_inv_def ref_ok_prompts)

lemma ref_inv_subset:
  assumes "ref_inv s" and "set ps \<subseteq> set (prompts s)"
  shows "ref_inv (s\<lparr>prompts := ps\<rparr>)"
  using assms by (auto simp: ref_inv_def ref_ok_prompts)

lemma ref_inv_get: "ref_inv s \<Longrightarrow> st_get_prompt s k = Some e \<Longrightarrow> ref_ok s e"
  using dict_get_SomeD[of "prompts s" k e] by (fastforce simp: ref_inv_def st_get_prompt_def)

lemma patch_loop_ref_ok: "patch_loop s fs u = Inr u' \<Longrightarrow> ref_ok s u \<Longrightarrow> ref_ok s u'"
proof (induction fs arbitrary: u)
  case Nil
  then show ?case by simp
next
  case (Cons a fs)
  obtain f v where a: "a = (f, v)" by (cases a)
  show ?case
  proof (cases v)
    case None
    with Cons a show ?thesis by simp
  next
    case (Some x)
    show ?thesis
    proof (cases "x \<noteq> [] \<and> f \<noteq> CollectionId")
      case True
      then have "ref_ok s (set_field f x u)"
        using Cons.prems(2) by (cases f) (simp_all add: ref_ok_def)
      with Cons a Some True show ?thesis by simp
    next
      case False
      show ?thesis
      proof (cases "f = CollectionId \<and> x \<noteq> []")
        case True
        with Cons.prems(1) a Some obtain c where c: "st_get_collection s x = Some c"
          and r: "patch_loop s fs (set_field f x u) = Inr u'"
          by (auto split: option.splits)
        from True c have "ref_ok s (set_field f x u)" by (simp add: ref_ok_def)
        with Cons.IH r show ?thesis by simp
      next
        case False2: False
        with False have "x = []" by auto
        with Cons a Some show ?thesis by simp
      qed
    qed
  qed
qed

lemma ref_inv_create_prompt: "ref_inv s \<Longrightarrow> ref_inv (snd (create_prompt d i t1 t2 s))"
proof -
  assume inv: "ref_inv s"
  show ?thesis
  proof (cases "case b_collection_id d of None \<Rightarrow> False
                | Some c \<Rightarrow> c \<noteq> [] \<and> st_get_collection s c = None")
    case True
    with inv show ?thesis by (simp add: create_prompt_def)
  next
    case False
    then have "ref_ok s \<lparr>p_id = i, title = b_title d, content = b_content d,
          description = b_description d, collection_id = b_collection_id d,
          created_at = t1, updated_at = t2\<rparr>"
      by (auto simp: ref_ok_def)
    with inv False show ?thesis
      by (simp add: create_prompt_def st_create_prompt_def Let_def ref_inv_set)
  qed
qed

lemma ref_inv_update_prompt: "ref_inv s \<Longrightarrow> ref_inv (snd (update_prompt pid d now s))"
proof -
  assume inv: "ref_inv s"
  show ?thesis
  proof (cases "st_get_prompt s pid")
    case None
    with inv show ?thesis by (simp add: update_prompt_def)
  next
    case (Some e)
    show ?thesis
    proof (cases "case b_collection_id d of None \<Rightarrow> False
                  | Some c \<Rightarrow> c \<noteq> [] \<and> st_get_collection s c = None")
      case True
      with inv Some show ?thesis by (simp add: update_prompt_def)
    next
      case False
      then have "ref_ok s \<lparr>p_id = p_id e, title = b_title d, content = b_content d,
            description = b_description d, collection_id = b_collection_id d,
            created_at = created_at e, updated_at = now\<rparr>"
        by (auto simp: ref_ok_def)
      with inv False Some show ?thesis
        by (simp add: update_prompt_def st_update_prompt_found Let_def ref_inv_set)
    qed
  qed
qed

lemma ref_inv_patch_prompt:
  assumes inv: "ref_inv s" shows "ref_inv (snd (patch_prompt pid d now s))"
  using patch_prompt_effect[of pid d now s]
proof (elim disjE exE conjE)
  fix e u
  assume e: "st_get_prompt s pid = Some e"
    and u: "patch_loop s (fields_set d) e = Inr u"
    and eq: "snd (patch_prompt pid d now s) =
       s\<lparr>prompts := dict_set pid (u\<lparr>updated_at := now\<rparr>) (prompts s)\<rparr>"
  from patch_loop_ref_ok[OF u ref_inv_get[OF inv e]]
  have "ref_ok s (u\<lparr>updated_at := now\<rparr>)" by (simp add: ref_ok_def)
  with inv show ?thesis unfolding eq by (rule ref_inv_set)
qed (simp add: inv)

lemma ref_inv_create_collection:
  assumes inv: "ref_inv s" shows "ref_inv (snd (create_collection d i t s))"
proof -
  have "st_get_collection (snd (create_collection d i t s)) c \<noteq> None"
    if "st_get_collection s c \<noteq> None" for c
    using that by (simp add: create_collection_effect st_get_collection_def dict_get_set)
  with inv show ?thesis
    by (fastforce simp: ref_inv_def ref_ok_def create_collection_effect)
qed

lemma ref_inv_delete_collection:
  assumes wf: "wf_storage s" and inv: "ref_inv s"
  shows "ref_inv (snd (delete_collection cid s))"
proof -
  have eq: "snd (delete_collection cid s) =
      \<lparr>prompts = filter (\<lambda>e. collection_id (snd e) \<noteq> Some cid) (prompts s),
       collections = dict_del cid (collections s)\<rparr>"
    using wf members_filter[of "prompts s" cid]
    by (simp add: delete_collection_effect st_get_prompts_by_collection_def dict_values_def
        wf_storage_def)
  show ?thesis
    unfolding eq ref_inv_def ref_ok_def
  proof (intro ballI allI impI)
    fix e c
    assume e: "e \<in> set (prompts \<lparr>prompts = filter (\<lambda>e. collection_id (snd e) \<noteq> Some cid) (prompts s),
       collections = dict_del cid (collections s)\<rparr>)"
      and c: "collection_id (snd e) = Some c \<and> c \<noteq> []"
    from e have m: "e \<in> set (prompts s)" and ne: "collection_id (snd e) \<noteq> Some cid" by simp_all
    from c ne have "c \<noteq> cid" by auto
    moreover from inv m c have "st_get_collection s c \<noteq> None"
      by (auto simp: ref_inv_def ref_ok_def)
    ultimately show "st_get_collection \<lparr>prompts = filter (\<lambda>e. collection_id (snd e) \<noteq> Some cid) (prompts s),
       collections = dict_del cid (collections s)\<rparr> c \<noteq> None"
      by (simp add: st_get_collection_def dict_get_del)
  qed
qed

lemma ref_inv_exec:
  assumes wf: "wf_storage s" and inv: "ref_inv s"
  shows "ref_inv (exec lower r s)"
proof (cases r)
  case (CreatePrompt d i t1 t2)
  with inv show ?thesis by (simp add: ref_inv_create_prompt)
next
  case (UpdatePrompt pid d now)
  with inv show ?thesis by (simp add: ref_inv_update_prompt)
next
  case (PatchPrompt pid d now)
  with inv show ?thesis by (simp add: ref_inv_patch_prompt)
next
  case (DeletePrompt pid)
  have "ref_inv (s\<lparr>prompts := dict_del pid (prompts s)\<rparr>)"
    using set_dict_del[of pid "prompts s"] by (intro ref_inv_subset[OF inv]) simp
  with DeletePrompt show ?thesis by (simp add: delete_prompt_effect)
next
  case (CreateCollection d i t)
  with inv show ?thesis by (simp add: ref_inv_create_collection)
next
  case (DeleteCollection cid)
  with wf inv show ?thesis by (simp add: ref_inv_delete_collection)
qed (use inv in \<open>simp_all add: read_only_effect\<close>)

lemma ref_inv_run: "wf_storage s \<Longrightarrow> ref_inv s \<Longrightarrow> ref_inv (run lower rs s)"
  by (induction rs arbitrary: s) (simp_all add: wf_exec ref_inv_exec)

lemma ref_inv_reachable: "ref_inv (run lower rs init_storage)"
proof (rule ref_inv_run)
  show "wf_storage init_storage" by (rule wf_init)
  show "ref_inv init_storage" by (simp add: ref_inv_def init_storage_def)
qed

text \<open>
  C4. In every storage that requests to the API have built from the empty one, and for
  every identifier that the route can pass (a non-empty string) and that is not a key
  of the collections dictionary, \<^verbatim>\<open>delete_collection\<close> raises the 404 error
  (\<open>NotFound\<close>) and returns the storage it was given: the prompts dictionary and the
  collections dictionary are as before the call. No stored prompt carries a non-empty
  identifier of a collection that is not stored, so the cascade finds no member.
\<close>

theorem delete_unknown_collection_unchanged:
  assumes "cid \<noteq> []" and "cid \<notin> fst ` set (collections (run lower rs init_storage))"
  shows "let s = run lower rs init_storage in
           delete_collection cid s = (Inl (HTTPException 404 ''Collection not found''), s)
         \<and> NotFound (HTTPException 404 ''Collection not found'')
         \<and> prompts (snd (delete_collection cid s)) = prompts s
         \<and> collections (snd (delete_collection cid s)) = collections s"
proof -
  define s where "s = run lower rs init_storage"
  have inv: "ref_inv s" unfolding s_def by (rule ref_inv_reachable)
  from assms(2) have none: "st_get_collection s cid = None"
    by (simp add: s_def st_get_collection_def dict_get_def map_of_eq_None_iff)
  have "st_get_prompts_by_collection s cid = []"
  proof (rule ccontr)
    assume "st_get_prompts_by_collection s cid \<noteq> []"
    then obtain e where "e \<in> set (prompts s)" "collection_id (snd e) = Some cid"
      by (auto simp: st_get_prompts_by_collection_def dict_values_def filter_empty_conv)
    with inv assms(1) have "st_get_collection s cid \<noteq> None"
      by (auto simp: ref_inv_def ref_ok_def)
    with none show False by simp
  qed
  moreover from none have "\<not> dict_mem cid (collections s)"
    by (simp add: dict_mem_def st_get_collection_def)
  ultimately have "delete_collection cid s = (Inl (HTTPException 404 ''Collection not found''), s)"
    by (simp add: delete_collection_def st_delete_collection_def Let_def)
  then show ?thesis by (simp add: s_def[symmetric] Let_def NotFound_def)
qed

theorem delete_unknown_collection_unchanged_witness:
  "''ghost'' \<noteq> []
   \<and> ''ghost'' \<notin> fst ` set (collections (run ascii_lower ex_requests init_storage))
   \<and> delete_collection ''ghost'' ex_storage
       = (Inl (HTTPException 404 ''Collection not found''), ex_storage)
   \<and> prompts (snd (delete_collection ''ghost'' ex_storage)) = prompts ex_storage
   \<and> collections (snd (delete_collection ''ghost'' ex_storage)) = collections ex_storage"
proof -
  have k: "''ghost'' \<notin> fst ` set (collections ex_storage)"
    by (simp add: ex_storage_def)
  show ?thesis
    using delete_unknown_collection_unchanged[of "''ghost''" ascii_lower ex_requests] k
    by (simp add: ex_storage_run Let_def)
qed

end
